theory Spec2Isabelle
  imports Complex_Main "HOL-Library.AList" "HOL-Library.Sublist"
begin

section \<open>Shared JavaScript primitives\<close>

text \<open>
  JavaScript's \<^verbatim>\<open>Array.prototype.sort(cmp)\<close> is a stable sort: \<open>a\<close> stays before
  \<open>b\<close> when \<open>cmp(a, b) \<le> 0\<close>. It is modelled by a stable insertion sort that takes
  the comparator of the source as it is written (a function into the numbers whose sign
  decides).
\<close>

fun js_insert :: "('a \<Rightarrow> 'a \<Rightarrow> 'b::{zero,ord}) \<Rightarrow> 'a \<Rightarrow> 'a list \<Rightarrow> 'a list" where
  "js_insert cmp x [] = [x]"
| "js_insert cmp x (y # ys) = (if cmp x y \<le> 0 then x # y # ys else y # js_insert cmp x ys)"

definition js_sort :: "('a \<Rightarrow> 'a \<Rightarrow> 'b::{zero,ord}) \<Rightarrow> 'a list \<Rightarrow> 'a list" where
  "js_sort cmp xs = foldr (js_insert cmp) xs []"

text \<open>
  A template literal prints a non-negative integer in decimal: \<^verbatim>\<open>`${n}`\<close>.
\<close>

definition digit :: "nat \<Rightarrow> char" where
  "digit d = char_of (48 + d)"

function dec :: "nat \<Rightarrow> string" where
  "dec n = (if n < 10 then [digit n] else dec (n div 10) @ [digit (n mod 10)])"
  by pat_completeness auto
termination
  by (relation "measure id") auto

declare dec.simps [simp del]

section \<open>Queue manager (src/lib/queue-manager.js, class IntelligentQueueManager)\<close>

subsection \<open>Data model\<close>

datatype item_status = Pending | Downloading | Completed | Failed

datatype queue_status = QCreated | QRunning | QPaused | QStopped | QCompleted

text \<open>
  An item as \<^verbatim>\<open>addToQueue\<close> builds it. Timestamps are readings of \<^verbatim>\<open>Date.now()\<close>
  (milliseconds, natural numbers); \<open>estimatedSize\<close> is the field the caller spread in,
  absent when the caller gave none. The fields \<^verbatim>\<open>queueId\<close>, \<^verbatim>\<open>filename\<close>, \<^verbatim>\<open>completedAt\<close>,
  \<^verbatim>\<open>progress\<close> and \<^verbatim>\<open>downloadResult\<close> are written but not read by the operations below
  and are left out.
\<close>

record queue_item =
  iid :: string
  url :: string
  estimatedSize :: "int option"
  istatus :: item_status
  priority :: int
  attempts :: nat
  addedAt :: nat
  startedAt :: "nat option"
  ierror :: "string option"

text \<open>What a caller hands to \<^verbatim>\<open>addToQueue\<close>: the properties the function reads.\<close>

record new_item =
  n_url :: string
  n_estimatedSize :: "int option"
  n_priority :: "int option"

record queue_options =
  opt_priority :: int
  concurrentLimit :: int
  retryAttempts :: int
  retryDelay :: int
  autoStart :: bool

record queue_progress =
  total_p :: int
  completed :: int
  failed :: int
  inProgress :: int

record queue_statistics =
  createdAt :: nat
  qstartedAt :: "nat option"
  qcompletedAt :: "nat option"
  totalSize :: int
  downloadedSize :: int

record queue =
  qid :: string
  options :: queue_options
  items :: "queue_item list"
  qstatus :: queue_status
  pauseReason :: "string option"
  progress :: queue_progress
  statistics :: queue_statistics
  activeDownloads :: "string list"
  failedItems :: "(queue_item \<times> string) list"
  retryQueue :: "queue_item list"

record manager_settings =
  maxConcurrentDownloads :: int
  maxQueueSize :: int
  s_retryAttempts :: int
  s_retryDelay :: int
  autoResume :: bool

record manager_statistics =
  totalQueued :: int
  totalCompleted :: int
  totalFailed :: int
  totalRetried :: int
  peakConcurrency :: int

text \<open>
  A retry timer set by \<^verbatim>\<open>scheduleRetry\<close>: the delay given to \<^verbatim>\<open>setTimeout\<close> and
  the queue and item its callback closes over.
\<close>

record retry_timer =
  t_delay :: real
  t_queue :: string
  t_item :: string

text \<open>The messages of \<^verbatim>\<open>notifyQueueEvent\<close> and \<^verbatim>\<open>notifyItemEvent\<close>, in the order sent.\<close>

datatype event =
  QueueEvent string string
| ItemEvent string string string

text \<open>
  A call of \<^verbatim>\<open>processQueue\<close> that is suspended in its loop, at
  \<^verbatim>\<open>await this.startDownload(item, queue)\<close>: the queue it was given, the item whose
  download it waits for, the items of its \<^verbatim>\<open>pendingItems\<close> that the loop has still to
  visit, and whether \<^verbatim>\<open>processQueues\<close> awaits the call (a tick) or nobody does
  (\<^verbatim>\<open>startQueue\<close>). The source holds the queue and the items as objects; the model
  holds their ids and reads the state of the object when the call goes on.
\<close>

record loop =
  l_queue :: string
  l_item :: string
  l_rest :: "string list"
  l_awaited :: bool

text \<open>
  The manager: \<open>queues\<close> is the \<^verbatim>\<open>Map\<close> from queue id to queue (an association list
  in insertion order), \<open>pausedQueues\<close> the \<^verbatim>\<open>Set\<close> of paused ids, \<open>m_activeDownloads\<close>
  the \<^verbatim>\<open>Map\<close> from item id to queue id, \<open>timers\<close> the pending retry timers,
  \<open>loops\<close> the suspended calls of \<^verbatim>\<open>processQueue\<close>, \<open>online\<close> the browser's
  \<^verbatim>\<open>navigator.onLine\<close>.
\<close>

record manager =
  queues :: "(string \<times> queue) list"
  m_activeDownloads :: "(string \<times> string) list"
  pausedQueues :: "string list"
  completedQueues :: "(string \<times> queue) list"
  settings :: manager_settings
  mstatistics :: manager_statistics
  timers :: "retry_timer list"
  loops :: "loop list"
  events :: "event list"
  online :: bool

datatype error =
  QueueExists string
| QueueNotFound string
| QueueSizeLimit int

subsection \<open>Queue utilities\<close>

definition getQueue :: "manager \<Rightarrow> string \<Rightarrow> queue option" where
  "getQueue m queueId = map_of (queues m) queueId"

text \<open>\<^verbatim>\<open>this.queues.set(queueId, queue)\<close>; also writes back a queue object mutated in place.\<close>

definition setQueue :: "string \<Rightarrow> queue \<Rightarrow> manager \<Rightarrow> manager" where
  "setQueue queueId q m = m\<lparr>queues := AList.update queueId q (queues m)\<rparr>"

definition compareItems :: "queue_item \<Rightarrow> queue_item \<Rightarrow> int" where
  "compareItems a b =
     (if priority a \<noteq> priority b then priority b - priority a
      else int (addedAt a) - int (addedAt b))"

definition sortQueueByPriority :: "queue \<Rightarrow> queue" where
  "sortQueueByPriority q = q\<lparr>items := js_sort compareItems (items q)\<rparr>"

subsection \<open>addToQueue\<close>

text \<open>\<^verbatim>\<open>a || b\<close> on an optional number: \<open>undefined\<close> and \<open>0\<close> are falsy.\<close>

definition js_or :: "int option \<Rightarrow> int \<Rightarrow> int" where
  "js_or a b = (case a of None \<Rightarrow> b | Some v \<Rightarrow> if v = 0 then b else v)"

definition mkQueueItem :: "queue \<Rightarrow> string \<Rightarrow> nat \<Rightarrow> nat \<Rightarrow> new_item \<Rightarrow> queue_item" where
  "mkQueueItem q queueId now index item =
     \<lparr>iid = queueId @ ''_item_'' @ dec now @ ''_'' @ dec index,
      url = n_url item,
      estimatedSize = n_estimatedSize item,
      istatus = Pending,
      priority = js_or (n_priority item) (opt_priority (options q)),
      attempts = 0,
      addedAt = now,
      startedAt = None,
      ierror = None\<rparr>"

text \<open>
  The result pairs what the call returns or throws with the state it leaves: both
  \<^verbatim>\<open>throw\<close>s come before the first mutation.
\<close>

definition addToQueue ::
  "manager \<Rightarrow> string \<Rightarrow> new_item list \<Rightarrow> nat \<Rightarrow> (error + string list) \<times> manager" where
  "addToQueue m queueId its now =
     (case getQueue m queueId of
        None \<Rightarrow> (Inl (QueueNotFound queueId), m)
      | Some q \<Rightarrow>
          let queueItems = map (\<lambda>(index, item). mkQueueItem q queueId now index item)
                               (enumerate 0 its)
          in if int (length (items q)) + int (length queueItems) > maxQueueSize (settings m)
             then (Inl (QueueSizeLimit (maxQueueSize (settings m))), m)
             else
               let q1 = q\<lparr>items := items q @ queueItems\<rparr>;
                   q2 = q1\<lparr>progress := (progress q1)\<lparr>total_p := total_p (progress q1)
                                                      + int (length queueItems)\<rparr>\<rparr>;
                   q3 = q2\<lparr>statistics := (statistics q2)\<lparr>totalSize := totalSize (statistics q2)
                            + foldl (\<lambda>s i. s + js_or (estimatedSize i) 0) 0 queueItems\<rparr>\<rparr>;
                   q4 = sortQueueByPriority q3;
                   m1 = setQueue queueId q4 m;
                   m2 = m1\<lparr>mstatistics := (mstatistics m1)\<lparr>totalQueued :=
                            totalQueued (mstatistics m1) + int (length queueItems)\<rparr>\<rparr>;
                   m3 = m2\<lparr>events := events m2 @ [QueueEvent ''itemsAdded'' queueId]\<rparr>
               in (Inr (map iid queueItems), m3))"

subsection \<open>Queue processing\<close>

definition availableSlots :: "queue \<Rightarrow> int" where
  "availableSlots q = concurrentLimit (options q) - int (length (activeDownloads q))"

text \<open>
  The items \<^verbatim>\<open>processQueue\<close> selects, in the order in which its loop calls
  \<^verbatim>\<open>startDownload\<close> on them.
\<close>

definition pendingItems :: "queue \<Rightarrow> queue_item list" where
  "pendingItems q =
     take (nat (availableSlots q))
       (js_sort (\<lambda>a b. priority b - priority a)
          (filter (\<lambda>item. istatus item = Pending) (items q)))"


text \<open>JavaScript's \<^verbatim>\<open>Set\<close> keeps insertion order and ignores a second \<^verbatim>\<open>add\<close>.\<close>

definition set_add :: "'a \<Rightarrow> 'a list \<Rightarrow> 'a list" where
  "set_add x xs = (if x \<in> set xs then xs else xs @ [x])"

definition set_delete :: "'a \<Rightarrow> 'a list \<Rightarrow> 'a list" where
  "set_delete x xs = removeAll x xs"

text \<open>
  The source passes the queue and the item as objects and mutates them in place. The
  model threads the queue and the manager as a pair and writes a mutated item back
  into the queue's list under its id.
\<close>

definition putItem :: "queue_item \<Rightarrow> queue \<Rightarrow> queue" where
  "putItem item q = q\<lparr>items := map (\<lambda>i. if iid i = iid item then item else i) (items q)\<rparr>"

definition notify :: "event \<Rightarrow> manager \<Rightarrow> manager" where
  "notify e m = m\<lparr>events := events m @ [e]\<rparr>"

text \<open>
  What \<^verbatim>\<open>executeDownload\<close> comes back with: its promise resolves with a final size or
  rejects with a message. The source simulates the download with timers and random
  numbers and says a download handler is to replace it; in the model the outcome of a
  download arrives from outside, as an event.
\<close>

datatype download_result = DownloadOk int | DownloadError string

text \<open>
  \<^verbatim>\<open>scheduleRetry\<close>: the delay is \<^verbatim>\<open>retryDelay * Math.pow(2, attempts - 1)\<close>; the
  timer is recorded as pending.
\<close>

definition retryDelayFor :: "queue \<Rightarrow> queue_item \<Rightarrow> real" where
  "retryDelayFor q item = of_int (retryDelay (options q)) * 2 powi (int (attempts item) - 1)"

definition scheduleRetry :: "queue_item \<Rightarrow> queue \<times> manager \<Rightarrow> queue \<times> manager" where
  "scheduleRetry item qm =
     (case qm of (q, m) \<Rightarrow>
        (q, m\<lparr>timers := timers m @
                [\<lparr>t_delay = retryDelayFor q item, t_queue = qid q, t_item = iid item\<rparr>]\<rparr>))"

text \<open>
  The callback of the retry timer, run when the delay has elapsed: it acts only on a
  queue that is running.
\<close>

definition retryCallback :: "queue_item \<Rightarrow> queue \<times> manager \<Rightarrow> queue \<times> manager" where
  "retryCallback item qm =
     (case qm of (q, m) \<Rightarrow>
        if qstatus q = QRunning
        then let item1 = item\<lparr>istatus := Pending, ierror := None\<rparr>;
                 q1 = putItem item1 q;
                 m1 = m\<lparr>mstatistics := (mstatistics m)\<lparr>totalRetried :=
                          totalRetried (mstatistics m) + 1\<rparr>\<rparr>
             in (q1, notify (ItemEvent ''retrying'' (iid item) (qid q)) m1)
        else (q, m))"

definition handleDownloadComplete ::
  "queue_item \<Rightarrow> int \<Rightarrow> queue \<times> manager \<Rightarrow> queue \<times> manager" where
  "handleDownloadComplete item finalSize qm =
     (case qm of (q, m) \<Rightarrow>
        let item1 = item\<lparr>istatus := Completed\<rparr>;
            q1 = putItem item1 q;
            q2 = q1\<lparr>activeDownloads := set_delete (iid item) (activeDownloads q1)\<rparr>;
            q3 = q2\<lparr>progress := (progress q2)\<lparr>inProgress := inProgress (progress q2) - 1,
                                                 completed := completed (progress q2) + 1\<rparr>\<rparr>;
            m1 = m\<lparr>m_activeDownloads := AList.delete (iid item) (m_activeDownloads m)\<rparr>;
            m2 = m1\<lparr>mstatistics := (mstatistics m1)\<lparr>totalCompleted :=
                     totalCompleted (mstatistics m1) + 1\<rparr>\<rparr>;
            q4 = q3\<lparr>statistics := (statistics q3)\<lparr>downloadedSize :=
                     downloadedSize (statistics q3) + finalSize\<rparr>\<rparr>
        in (q4, notify (ItemEvent ''completed'' (iid item) (qid q)) m2))"

definition handleDownloadError ::
  "queue_item \<Rightarrow> string \<Rightarrow> queue \<times> manager \<Rightarrow> queue \<times> manager" where
  "handleDownloadError item message qm =
     (case qm of (q, m) \<Rightarrow>
        let item1 = item\<lparr>istatus := Failed, ierror := Some message\<rparr>;
            q1 = putItem item1 q;
            q2 = q1\<lparr>activeDownloads := set_delete (iid item) (activeDownloads q1)\<rparr>;
            q3 = q2\<lparr>progress := (progress q2)\<lparr>inProgress := inProgress (progress q2) - 1,
                                                 failed := failed (progress q2) + 1\<rparr>\<rparr>;
            m1 = m\<lparr>m_activeDownloads := AList.delete (iid item) (m_activeDownloads m)\<rparr>;
            m2 = m1\<lparr>mstatistics := (mstatistics m1)\<lparr>totalFailed :=
                     totalFailed (mstatistics m1) + 1\<rparr>\<rparr>;
            q4 = q3\<lparr>failedItems := failedItems q3 @ [(item1, message)]\<rparr>;
            qm5 = (if int (attempts item1) < retryAttempts (options q4)
                   then scheduleRetry item1 (q4, m2) else (q4, m2))
        in (fst qm5, notify (ItemEvent ''failed'' (iid item) (qid q)) (snd qm5)))"

text \<open>
  \<^verbatim>\<open>startDownload\<close> up to its \<^verbatim>\<open>await this.executeDownload(item, queue)\<close>: the item is
  marked and counted, whatever its status was.
\<close>

definition startDownload :: "nat \<Rightarrow> queue_item \<Rightarrow> queue \<times> manager \<Rightarrow> queue \<times> manager" where
  "startDownload now item qm =
     (case qm of (q, m) \<Rightarrow>
        let item1 = item\<lparr>istatus := Downloading, startedAt := Some now,
                          attempts := attempts item + 1\<rparr>;
            q1 = putItem item1 q;
            q2 = q1\<lparr>activeDownloads := set_add (iid item) (activeDownloads q1)\<rparr>;
            q3 = q2\<lparr>progress := (progress q2)\<lparr>inProgress := inProgress (progress q2) + 1\<rparr>\<rparr>;
            m1 = m\<lparr>m_activeDownloads := AList.update (iid item) (qid q) (m_activeDownloads m)\<rparr>;
            totalActive = int (length (m_activeDownloads m1));
            m2 = (if totalActive > peakConcurrency (mstatistics m1)
                  then m1\<lparr>mstatistics := (mstatistics m1)\<lparr>peakConcurrency := totalActive\<rparr>\<rparr>
                  else m1)
        in (q3, notify (ItemEvent ''started'' (iid item) (qid q)) m2))"

text \<open>
  \<^verbatim>\<open>startDownload\<close> from its \<^verbatim>\<open>await\<close> on: the promise has resolved and the result goes
  to \<^verbatim>\<open>handleDownloadComplete\<close>, or it has rejected and \<^verbatim>\<open>catch\<close> hands the error to
  \<^verbatim>\<open>handleDownloadError\<close>. The item is the object as it is by then.
\<close>

definition downloadSettled ::
  "download_result \<Rightarrow> queue_item \<Rightarrow> queue \<times> manager \<Rightarrow> queue \<times> manager" where
  "downloadSettled result item qm =
     (case result of
        DownloadOk finalSize \<Rightarrow> handleDownloadComplete item finalSize qm
      | DownloadError message \<Rightarrow> handleDownloadError item message qm)"

text \<open>
  \<^verbatim>\<open>completeQueue\<close>. The move to the completed queues five seconds later is a timer
  of its own and is left out, as is \<^verbatim>\<open>removeQueue\<close>: no queue leaves the map.
\<close>

definition completeQueue :: "nat \<Rightarrow> queue \<times> manager \<Rightarrow> queue \<times> manager" where
  "completeQueue now qm =
     (case qm of (q, m) \<Rightarrow>
        if qstatus q = QCompleted then (q, m)
        else let q1 = q\<lparr>qstatus := QCompleted\<rparr>;
                 q2 = q1\<lparr>statistics := (statistics q1)\<lparr>qcompletedAt := Some now\<rparr>\<rparr>
             in (q2, notify (QueueEvent ''completed'' (qid q)) m))"

text \<open>
  The loop \<^verbatim>\<open>for (const item of pendingItems) { await this.startDownload(item, queue); }\<close>
  from the items it has still to visit. It calls \<^verbatim>\<open>startDownload\<close> on the next one
  without looking at the item's status, and the call is suspended until that download
  has settled. The result says whether \<^verbatim>\<open>processQueue\<close> has returned. An id that
  names no item of the queue is passed over; no operation of the model removes an
  item, so this does not arise.
\<close>

fun continueLoop :: "nat \<Rightarrow> string \<Rightarrow> bool \<Rightarrow> string list \<Rightarrow> manager \<Rightarrow> manager \<times> bool" where
  "continueLoop now queueId awaited [] m = (m, True)"
| "continueLoop now queueId awaited (itemId # rest) m =
     (case getQueue m queueId of
        None \<Rightarrow> (m, True)
      | Some q \<Rightarrow>
          (case find (\<lambda>i. iid i = itemId) (items q) of
             None \<Rightarrow> continueLoop now queueId awaited rest m
           | Some item \<Rightarrow>
               (case startDownload now item (q, m) of
                  (q1, m1) \<Rightarrow>
                    ((setQueue queueId q1 m1)
                       \<lparr>loops := loops m1 @ [\<lparr>l_queue = queueId, l_item = itemId, l_rest = rest,
                                               l_awaited = awaited\<rparr>]\<rparr>,
                     False))))"

text \<open>
  \<^verbatim>\<open>processQueue\<close> from its call to its first \<^verbatim>\<open>await\<close> or its return: the snapshot
  \<^verbatim>\<open>pendingItems\<close> is taken here, once.
\<close>

definition processQueue :: "nat \<Rightarrow> bool \<Rightarrow> string \<Rightarrow> manager \<Rightarrow> manager \<times> bool" where
  "processQueue now awaited queueId m =
     (case getQueue m queueId of
        None \<Rightarrow> (m, True)
      | Some q \<Rightarrow>
          if availableSlots q \<le> 0 then (m, True)
          else if pendingItems q = []
          then (if activeDownloads q = [] \<and> retryQueue q = []
                then (case completeQueue now (q, m) of (q1, m1) \<Rightarrow> (setQueue queueId q1 m1, True))
                else (m, True))
          else continueLoop now queueId awaited (map iid (pendingItems q)) m)"

text \<open>
  The loop of \<^verbatim>\<open>processQueues\<close> over the map of queues, from a list of ids on: each
  running queue is processed and the call awaited, so the queues after it wait until
  its loop has come to its end.
\<close>

fun processQueuesFrom :: "nat \<Rightarrow> string list \<Rightarrow> manager \<Rightarrow> manager" where
  "processQueuesFrom now [] m = m"
| "processQueuesFrom now (queueId # rest) m =
     (case getQueue m queueId of
        None \<Rightarrow> processQueuesFrom now rest m
      | Some q \<Rightarrow>
          if qstatus q = QRunning
          then (case processQueue now True queueId m of
                  (m1, returned) \<Rightarrow> if returned then processQueuesFrom now rest m1 else m1)
          else processQueuesFrom now rest m)"

text \<open>The tick of \<^verbatim>\<open>processQueues\<close>: nothing is processed while the browser is offline.\<close>

definition processQueues :: "nat \<Rightarrow> manager \<Rightarrow> manager" where
  "processQueues now m =
     (if \<not> online m then m else processQueuesFrom now (map fst (queues m)) m)"

text \<open>
  The iteration over a \<^verbatim>\<open>Map\<close> is live: when a tick goes on after an \<^verbatim>\<open>await\<close>, the
  queues it has still to visit are those that now come after the one it was at.
\<close>

definition queuesAfter :: "string \<Rightarrow> manager \<Rightarrow> string list" where
  "queuesAfter queueId m = tl (dropWhile (\<lambda>k. k \<noteq> queueId) (map fst (queues m)))"

text \<open>
  The download that the \<open>k\<close>-th suspended call waits for settles. The rest of
  \<^verbatim>\<open>startDownload\<close> runs on the item as it is now, the loop goes on to its next item,
  and when the loop of a tick has come to its end the tick goes on to the next queue.
  All of this happens before any other timer, event or message is served.
\<close>

definition downloadFinished :: "nat \<Rightarrow> download_result \<Rightarrow> nat \<Rightarrow> manager \<Rightarrow> manager" where
  "downloadFinished k result now m =
     (if length (loops m) \<le> k then m
      else
        let l = loops m ! k;
            m0 = m\<lparr>loops := take k (loops m) @ drop (Suc k) (loops m)\<rparr>;
            m2 = (case getQueue m0 (l_queue l) of
                    None \<Rightarrow> m0
                  | Some q \<Rightarrow>
                      (case find (\<lambda>i. iid i = l_item l) (items q) of
                         None \<Rightarrow> m0
                       | Some item \<Rightarrow>
                           (case downloadSettled result item (q, m0) of
                              (q1, m1) \<Rightarrow> setQueue (l_queue l) q1 m1)))
        in case continueLoop now (l_queue l) (l_awaited l) (l_rest l) m2 of
             (m3, returned) \<Rightarrow>
               if returned \<and> l_awaited l
               then processQueuesFrom now (queuesAfter (l_queue l) m3) m3
               else m3)"

text \<open>
  The callback of a pending retry timer, looked up in the manager. A queue that is no
  longer in the map was stopped or completed before it left, so its callback does
  nothing.
\<close>

definition retryTimerFired :: "retry_timer \<Rightarrow> manager \<Rightarrow> manager" where
  "retryTimerFired t m =
     (let m0 = m\<lparr>timers := remove1 t (timers m)\<rparr>
      in case getQueue m0 (t_queue t) of
           None \<Rightarrow> m0
         | Some q \<Rightarrow>
             (case find (\<lambda>i. iid i = t_item t) (items q) of
                None \<Rightarrow> m0
              | Some item \<Rightarrow>
                  (case retryCallback item (q, m0) of (q1, m1) \<Rightarrow> setQueue (t_queue t) q1 m1)))"

subsection \<open>Queue management\<close>

text \<open>The options a caller of \<^verbatim>\<open>createQueue\<close> may give; an absent one takes the default.\<close>

record queue_overrides =
  o_priority :: "int option"
  o_concurrentLimit :: "int option"
  o_retryAttempts :: "int option"
  o_retryDelay :: "int option"
  o_autoStart :: "bool option"

definition orDefault :: "'a option \<Rightarrow> 'a \<Rightarrow> 'a" where
  "orDefault a d = (case a of None \<Rightarrow> d | Some v \<Rightarrow> v)"

definition startQueue :: "nat \<Rightarrow> string \<Rightarrow> manager \<Rightarrow> error option \<times> manager" where
  "startQueue now queueId m =
     (case getQueue m queueId of
        None \<Rightarrow> (Some (QueueNotFound queueId), m)
      | Some q \<Rightarrow>
          if qstatus q = QRunning then (None, m)
          else let q1 = q\<lparr>qstatus := QRunning\<rparr>;
                   q2 = q1\<lparr>statistics := (statistics q1)\<lparr>qstartedAt := Some now\<rparr>\<rparr>;
                   m1 = m\<lparr>pausedQueues := set_delete queueId (pausedQueues m)\<rparr>;
                   m2 = notify (QueueEvent ''started'' queueId) (setQueue queueId q2 m1)
               in (None, fst (processQueue now False queueId m2)))"

definition createQueue ::
  "nat \<Rightarrow> string \<Rightarrow> queue_overrides \<Rightarrow> manager \<Rightarrow> (error + string) \<times> manager" where
  "createQueue now queueId opts m =
     (if map_of (queues m) queueId \<noteq> None then (Inl (QueueExists queueId), m)
      else
        let queueOptions =
              \<lparr>opt_priority = orDefault (o_priority opts) 3,
               concurrentLimit = orDefault (o_concurrentLimit opts)
                                   (maxConcurrentDownloads (settings m)),
               retryAttempts = orDefault (o_retryAttempts opts) (s_retryAttempts (settings m)),
               retryDelay = orDefault (o_retryDelay opts) (s_retryDelay (settings m)),
               autoStart = orDefault (o_autoStart opts) True\<rparr>;
            q = \<lparr>qid = queueId, options = queueOptions, items = [], qstatus = QCreated,
                 pauseReason = None,
                 progress = \<lparr>total_p = 0, completed = 0, failed = 0, inProgress = 0\<rparr>,
                 statistics = \<lparr>createdAt = now, qstartedAt = None, qcompletedAt = None,
                               totalSize = 0, downloadedSize = 0\<rparr>,
                 activeDownloads = [], failedItems = [], retryQueue = []\<rparr>;
            m1 = setQueue queueId q m;
            m2 = (if autoStart queueOptions then snd (startQueue now queueId m1) else m1)
        in (Inr queueId, notify (QueueEvent ''created'' queueId) m2))"

text \<open>
  \<^verbatim>\<open>cancelDownload\<close> only writes to the console, so cancelling the active downloads
  of a paused queue leaves the state as it is: the downloads go on and settle later.
\<close>

definition pauseQueue :: "string \<Rightarrow> string \<Rightarrow> manager \<Rightarrow> error option \<times> manager" where
  "pauseQueue queueId reason m =
     (case getQueue m queueId of
        None \<Rightarrow> (Some (QueueNotFound queueId), m)
      | Some q \<Rightarrow>
          let q1 = q\<lparr>qstatus := QPaused, pauseReason := Some reason\<rparr>;
              m1 = setQueue queueId q1 m;
              m2 = m1\<lparr>pausedQueues := set_add queueId (pausedQueues m1)\<rparr>
          in (None, notify (QueueEvent ''paused'' queueId) m2))"

definition resumeQueue :: "string \<Rightarrow> manager \<Rightarrow> error option \<times> manager" where
  "resumeQueue queueId m =
     (case getQueue m queueId of
        None \<Rightarrow> (Some (QueueNotFound queueId), m)
      | Some q \<Rightarrow>
          if qstatus q \<noteq> QPaused then (None, m)
          else let q1 = q\<lparr>qstatus := QRunning, pauseReason := None\<rparr>;
                   m1 = m\<lparr>pausedQueues := set_delete queueId (pausedQueues m)\<rparr>;
                   q2 = q1\<lparr>items := map (\<lambda>item. if istatus item = Downloading
                                                  then item\<lparr>istatus := Pending\<rparr> else item)
                                         (items q1)\<rparr>;
                   m2 = setQueue queueId q2 m1
               in (None, notify (QueueEvent ''resumed'' queueId) m2))"

subsection \<open>Batch operations and the browser's events\<close>

text \<open>A \<^verbatim>\<open>for\<close> loop over calls that may throw: the first exception ends the loop.\<close>

fun forEach ::
  "('a \<Rightarrow> manager \<Rightarrow> error option \<times> manager) \<Rightarrow> 'a list \<Rightarrow> manager \<Rightarrow> error option \<times> manager"
  where
  "forEach f [] m = (None, m)"
| "forEach f (x # xs) m =
     (case f x m of (Some e, m1) \<Rightarrow> (Some e, m1) | (None, m1) \<Rightarrow> forEach f xs m1)"

definition pauseAllQueues :: "string \<Rightarrow> manager \<Rightarrow> error option \<times> manager" where
  "pauseAllQueues reason m =
     forEach (\<lambda>queueId m'. if queueId \<in> set (pausedQueues m') then (None, m')
                            else pauseQueue queueId reason m')
             (map fst (queues m)) m"

text \<open>
  \<^verbatim>\<open>resumeAllQueues(reason)\<close> never reads its argument. The loop runs over the set of
  paused ids while \<^verbatim>\<open>resumeQueue\<close> deletes the id it is at, which visits every id
  that was in the set.
\<close>

definition resumeAllQueues :: "string \<Rightarrow> manager \<Rightarrow> error option \<times> manager" where
  "resumeAllQueues reason m = forEach (\<lambda>queueId m'. resumeQueue queueId m') (pausedQueues m) m"

definition handleNetworkChange :: "bool \<Rightarrow> manager \<Rightarrow> error option \<times> manager" where
  "handleNetworkChange isOnline m =
     (if isOnline
      then (if autoResume (settings m) then resumeAllQueues ''network'' m else (None, m))
      else pauseAllQueues ''network'' m)"

text \<open>
  The listeners that \<^verbatim>\<open>setupEventListeners\<close> installs, as one function of the browser's
  event: \<open>online\<close>, \<open>offline\<close>, and \<open>visibilitychange\<close> with the document hidden or shown.
\<close>

datatype browser_event = Online | Offline | Hidden | Visible

fun eventListener :: "browser_event \<Rightarrow> manager \<Rightarrow> error option \<times> manager" where
  "eventListener Online m = handleNetworkChange True (m\<lparr>online := True\<rparr>)"
| "eventListener Offline m = handleNetworkChange False (m\<lparr>online := False\<rparr>)"
| "eventListener Hidden m = pauseAllQueues ''visibility'' m"
| "eventListener Visible m = resumeAllQueues ''visibility'' m"

subsection \<open>Persistence\<close>

text \<open>
  \<^verbatim>\<open>persistQueues\<close> hands this list to the storage manager; \<^verbatim>\<open>loadPersistedQueues\<close>
  receives the list the storage manager returns. The storage itself (the browser's
  storage areas, with compression and expiry) lies between the two.
\<close>

definition persistQueues :: "manager \<Rightarrow> queue list" where
  "persistQueues m = map (\<lambda>(queueId, q). q\<lparr>activeDownloads := []\<rparr>) (queues m)"

definition restoreQueue :: "queue \<Rightarrow> queue" where
  "restoreQueue queueData =
     (let q = queueData\<lparr>activeDownloads := [], qstatus := QPaused\<rparr>
      in q\<lparr>items := map (\<lambda>item. if istatus item = Downloading
                                   then item\<lparr>istatus := Pending\<rparr> else item) (items q)\<rparr>)"

definition loadPersistedQueues :: "queue list \<Rightarrow> manager \<Rightarrow> manager" where
  "loadPersistedQueues savedQueues m =
     fold (\<lambda>queueData m'.
             let q = restoreQueue queueData;
                 m1 = setQueue (qid q) q m'
             in m1\<lparr>pausedQueues := set_add (qid q) (pausedQueues m1)\<rparr>)
          savedQueues m"

text \<open>The manager as its constructor leaves it.\<close>

definition newManager :: manager where
  "newManager =
     \<lparr>queues = [], m_activeDownloads = [], pausedQueues = [], completedQueues = [],
      settings = \<lparr>maxConcurrentDownloads = 3, maxQueueSize = 1000, s_retryAttempts = 3,
                  s_retryDelay = 1000, autoResume = True\<rparr>,
      mstatistics = \<lparr>totalQueued = 0, totalCompleted = 0, totalFailed = 0, totalRetried = 0,
                     peakConcurrency = 0\<rparr>,
      timers = [], loops = [], events = [], online = True\<rparr>"

subsection \<open>Runs\<close>

text \<open>
  What the browser serves one at a time, each with the reading of \<^verbatim>\<open>Date.now()\<close> at
  that moment: a call of the manager's interface from a message handler, the tick of
  \<^verbatim>\<open>setInterval(() => this.processQueues(), 1000)\<close>, the settling of the download the
  \<open>k\<close>-th suspended call waits for, the elapsing of the \<open>k\<close>-th pending retry timer,
  and the events the manager listens to. A call that throws leaves the state it had
  reached.
\<close>

datatype action =
  CreateQueue string queue_overrides
| AddToQueue string "new_item list"
| StartQueue string
| PauseQueue string string
| ResumeQueue string
| Tick
| Finished nat download_result
| Elapsed nat
| Browser browser_event

fun step :: "nat \<times> action \<Rightarrow> manager \<Rightarrow> manager" where
  "step (now, CreateQueue queueId opts) m = snd (createQueue now queueId opts m)"
| "step (now, AddToQueue queueId its) m = snd (addToQueue m queueId its now)"
| "step (now, StartQueue queueId) m = snd (startQueue now queueId m)"
| "step (now, PauseQueue queueId reason) m = snd (pauseQueue queueId reason m)"
| "step (now, ResumeQueue queueId) m = snd (resumeQueue queueId m)"
| "step (now, Tick) m = processQueues now m"
| "step (now, Finished k result) m = downloadFinished k result now m"
| "step (now, Elapsed k) m = (if length (timers m) \<le> k then m else retryTimerFired (timers m ! k) m)"
| "step (now, Browser e) m = snd (eventListener e m)"

definition run :: "(nat \<times> action) list \<Rightarrow> manager \<Rightarrow> manager" where
  "run acts m = fold step acts m"

subsection \<open>Observing a run\<close>

text \<open>The ids of the items whose start was announced, in the order of the announcements.\<close>

fun startedItems :: "event list \<Rightarrow> string list" where
  "startedItems [] = []"
| "startedItems (ItemEvent eventType itemId queueId # es) =
     (if eventType = ''started'' then itemId # startedItems es else startedItems es)"
| "startedItems (QueueEvent eventType queueId # es) = startedItems es"

subsection \<open>A queue with priorities 1, 5, 3\<close>

text \<open>
  A manager as constructed, one queue created without \<^verbatim>\<open>autoStart\<close>, and three
  calls of \<^verbatim>\<open>addToQueue\<close> with one item each, of priorities 1, 5 and 3.
\<close>

definition example_item :: "int \<Rightarrow> new_item" where
  "example_item p = \<lparr>n_url = ''u'', n_estimatedSize = None, n_priority = Some p\<rparr>"

definition manual_start :: queue_overrides where
  "manual_start = \<lparr>o_priority = None, o_concurrentLimit = None, o_retryAttempts = None,
      o_retryDelay = None, o_autoStart = Some False\<rparr>"

definition example_manager_1_5 :: manager where
  "example_manager_1_5 =
     (let m0 = snd (createQueue 0 ''q'' manual_start newManager);
          m1 = snd (addToQueue m0 ''q'' [example_item 1] 1)
      in snd (addToQueue m1 ''q'' [example_item 5] 2))"

definition example_manager :: manager where
  "example_manager = snd (addToQueue example_manager_1_5 ''q'' [example_item 3] 3)"

definition example_queue :: queue where
  "example_queue = the (getQueue example_manager ''q'')"


text \<open>The same manager with room for four items in a queue.\<close>

definition small_manager :: manager where
  "small_manager = example_manager\<lparr>settings := (settings example_manager)\<lparr>maxQueueSize := 4\<rparr>\<rparr>"

text \<open>
  The queue while its first item is being downloaded, as \<^verbatim>\<open>startDownload\<close> has marked
  it before the executor returns, and the manager holding it.
\<close>

definition interrupted_queue :: queue where
  "interrupted_queue =
     example_queue\<lparr>qstatus := QRunning,
       items := map (\<lambda>item. if priority item = 5
                             then item\<lparr>istatus := Downloading, attempts := 1\<rparr> else item)
                    (items example_queue),
       activeDownloads := [''q_item_2_0'']\<rparr>"

definition interrupted_manager :: manager where
  "interrupted_manager = setQueue ''q'' interrupted_queue example_manager"

text \<open>
  That manager after the browser went offline and the tab was hidden, and then after
  the tab was shown again.
\<close>

definition offline_hidden :: manager where
  "offline_hidden = snd (eventListener Hidden (snd (eventListener Offline interrupted_manager)))"

definition offline_hidden_shown :: manager where
  "offline_hidden_shown = snd (eventListener Visible offline_hidden)"

text \<open>
  The queue of priorities 1, 5, 3 started by hand, with downloads that take longer
  than the second between two ticks. \<^verbatim>\<open>startQueue\<close> selects all three items and starts
  the first; the ticks at 1000 and 2000 find the other two still \<open>pending\<close> and start
  them; the first download resolves at 2500 and the call of \<^verbatim>\<open>startQueue\<close> goes on
  with its own selection.
\<close>

definition slow_downloads :: manager where
  "slow_downloads =
     run [(4, StartQueue ''q''), (1000, Tick), (2000, Tick), (2500, Finished 0 (DownloadOk 0))]
       example_manager"

text \<open>
  A queue of two items, of priorities 3 and 1, started by hand. While the first
  download is under way an item of priority 5 is added; then the download is
  rejected, and then comes the tick.
\<close>

definition two_items :: manager where
  "two_items =
     (let m0 = snd (createQueue 0 ''q'' manual_start newManager);
          m1 = snd (addToQueue m0 ''q'' [example_item 3] 1)
      in snd (addToQueue m1 ''q'' [example_item 1] 2))"

definition added_before :: manager where
  "added_before = run [(4, StartQueue ''q''), (300, AddToQueue ''q'' [example_item 5])] two_items"

definition added_meanwhile :: manager where
  "added_meanwhile =
     run [(600, Finished 0 (DownloadError ''Simulated download failure''))] added_before"

definition added_meanwhile_tick :: manager where
  "added_meanwhile_tick = run [(1000, Tick)] added_meanwhile"

text \<open>
  The queue of priorities 1, 5, 3 started by hand, its first download under way, and
  the manager as it starts again: the queues of that manager are persisted and loaded
  into a new manager. Then the tab is shown and a tick follows; no call of
  \<^verbatim>\<open>resumeQueue\<close> or \<^verbatim>\<open>startQueue\<close> comes from outside.
\<close>

definition started_manager :: manager where
  "started_manager = run [(4, StartQueue ''q'')] example_manager"

definition restored_manager :: manager where
  "restored_manager = loadPersistedQueues (persistQueues started_manager) newManager"

definition restored_shown :: manager where
  "restored_shown = run [(500, Browser Visible)] restored_manager"

definition restored_shown_tick :: manager where
  "restored_shown_tick = run [(1000, Tick)] restored_shown"

text \<open>The same with the browser's \<open>online\<close> event in place of the tab being shown.\<close>

definition restored_online_tick :: manager where
  "restored_online_tick = run [(500, Browser Online), (1000, Tick)] restored_manager"

text \<open>
  A queue with one item whose every download is rejected. The queue is created with
  a given \<open>retryAttempts\<close> and \<open>retryDelay\<close> and started by hand at time 2; the first
  download is rejected at time 500.
\<close>

definition retry_cap :: "int \<Rightarrow> int \<Rightarrow> queue_overrides" where
  "retry_cap n d = \<lparr>o_priority = None, o_concurrentLimit = None, o_retryAttempts = Some n,
      o_retryDelay = Some d, o_autoStart = Some False\<rparr>"

definition failing_manager :: "int \<Rightarrow> int \<Rightarrow> manager" where
  "failing_manager n d =
     snd (addToQueue (snd (createQueue 0 ''q'' (retry_cap n d) newManager))
            ''q'' [example_item 3] 1)"

definition first_failure :: "int \<Rightarrow> int \<Rightarrow> manager" where
  "first_failure n d =
     run [(2, StartQueue ''q''), (500, Finished 0 (DownloadError ''fail''))] (failing_manager n d)"

text \<open>With \<open>retryAttempts = 3\<close>: the queue and its item after the first failure.\<close>

definition failed_once_queue :: queue where
  "failed_once_queue = the (getQueue (first_failure 3 1000) ''q'')"

definition failed_once_item :: queue_item where
  "failed_once_item = hd (items failed_once_queue)"

text \<open>An item as \<^verbatim>\<open>startDownload\<close> marks it.\<close>

definition item_started :: "queue_item \<Rightarrow> nat \<Rightarrow> queue_item" where
  "item_started item now = item\<lparr>istatus := Downloading, startedAt := Some now, attempts := attempts item + 1\<rparr>"

text \<open>
  With \<open>retryAttempts = 2\<close> and the delay of 1000 that is the default: the retry timer
  is due at 1500, the tick comes at 1000, and a later tick at 2000.
\<close>

definition tick_before_timer :: manager where
  "tick_before_timer = run [(1000, Tick), (1500, Elapsed 0), (2000, Tick)] (first_failure 2 1000)"

text \<open>
  With \<open>retryAttempts = 2\<close> and a delay of 100: the retry timer elapses at 600, the
  tick at 1000 starts the item again, that download is rejected at 1500, and two more
  ticks follow.
\<close>

definition timer_before_tick :: manager where
  "timer_before_tick =
     run [(600, Elapsed 0), (1000, Tick), (1500, Finished 0 (DownloadError ''fail'')),
          (2000, Tick), (3000, Tick)] (first_failure 2 100)"

text \<open>
  Two items, of priorities 5 and 3, in a queue with \<open>retryAttempts = 1\<close>.
  \<^verbatim>\<open>startQueue\<close> selects both and starts the first; the tick at 1000 starts the second,
  whose download is rejected at 1200: the item has reached the cap. The download of
  the first is rejected at 1500, and the call of \<^verbatim>\<open>startQueue\<close> goes on with its own
  selection.
\<close>

definition two_failing :: manager where
  "two_failing =
     (let m0 = snd (createQueue 0 ''q'' (retry_cap 1 1000) newManager)
      in snd (addToQueue m0 ''q'' [example_item 5, example_item 3] 1))"

definition capped :: manager where
  "capped = run [(2, StartQueue ''q''), (1000, Tick), (1200, Finished 1 (DownloadError ''fail''))]
              two_failing"

definition started_past_cap :: manager where
  "started_past_cap = run [(1500, Finished 0 (DownloadError ''fail''))] capped"

section \<open>Content scanner (src/content/scanner.js, class ContentScanner)\<close>

subsection \<open>Data model\<close>

text \<open>
  A discovered image. Widths and heights are pixel counts as the DOM reports them
  (\<^verbatim>\<open>naturalWidth\<close>, \<^verbatim>\<open>canvas.width\<close>, \<^verbatim>\<open>videoWidth\<close>): natural numbers.
\<close>

record image_data =
  i_url :: string
  i_alt :: string
  width :: nat
  height :: nat
  i_type :: string
  i_estimatedSize :: real

record file_types =
  ft_jpg :: bool
  ft_png :: bool
  ft_webp :: bool
  ft_gif :: bool
  ft_svg :: bool
  ft_blob :: bool

record scan_settings =
  fileTypes :: file_types
  minWidth :: int
  minHeight :: int
  infiniteScroll :: bool

text \<open>The \<^verbatim>\<open>scannedImages\<close> map of the scanner: from image key to the image first seen.\<close>

type_synonym scanned_images = "string \<rightharpoonup> image_data"

subsection \<open>Keys and types\<close>

text \<open>\<^verbatim>\<open>url.split('?')[0]\<close>: the URL up to its first question mark.\<close>

definition stripQuery :: "string \<Rightarrow> string" where
  "stripQuery u = takeWhile (\<lambda>c. c \<noteq> CHR ''?'') u"

definition generateImageKey :: "'a image_data_scheme \<Rightarrow> string" where
  "generateImageKey imageData =
     stripQuery (i_url imageData) @ ''_'' @ dec (width imageData) @ ''x'' @ dec (height imageData)"

text \<open>
  The first match of \<^verbatim>\<open>/data:image\/([^;]+)/\<close> in a string: its group, the longest
  run of characters other than \<open>;\<close> after the first \<open>data:image/\<close> that has one.
\<close>

fun matchDataImage :: "string \<Rightarrow> string option" where
  "matchDataImage [] = None"
| "matchDataImage (c # cs) =
     (if prefix ''data:image/'' (c # cs) \<and> takeWhile (\<lambda>x. x \<noteq> CHR '';'') (drop 11 (c # cs)) \<noteq> []
      then Some (takeWhile (\<lambda>x. x \<noteq> CHR '';'') (drop 11 (c # cs)))
      else matchDataImage cs)"

text \<open>\<^verbatim>\<open>toLowerCase\<close> on the letters A to Z; other characters stay.\<close>

definition toLowerCase :: "string \<Rightarrow> string" where
  "toLowerCase s =
     map (\<lambda>c. if 65 \<le> (of_char c :: nat) \<and> (of_char c :: nat) \<le> 90
               then char_of ((of_char c :: nat) + 32) else c) s"

definition determineImageType :: "string \<Rightarrow> string" where
  "determineImageType u =
     (if prefix ''data:image/'' u
      then (case matchDataImage u of Some t \<Rightarrow> t | None \<Rightarrow> ''unknown'')
      else if prefix ''blob:'' u then ''blob''
      else let extension = toLowerCase (stripQuery (rev (takeWhile (\<lambda>c. c \<noteq> CHR ''.'') (rev u))))
           in if extension = [] then ''unknown'' else extension)"

definition passesFileTypeFilter :: "scan_settings \<Rightarrow> 'a image_data_scheme \<Rightarrow> bool" where
  "passesFileTypeFilter s imageData =
     (let t = (if i_type imageData \<noteq> [] then i_type imageData
               else determineImageType (i_url imageData))
      in if t = ''jpg'' \<or> t = ''jpeg'' then ft_jpg (fileTypes s)
         else if t = ''png'' then ft_png (fileTypes s)
         else if t = ''webp'' then ft_webp (fileTypes s)
         else if t = ''gif'' then ft_gif (fileTypes s)
         else if t = ''svg'' then ft_svg (fileTypes s)
         else if t = ''canvas'' \<or> t = ''blob'' \<or> t = ''video-frame'' then ft_blob (fileTypes s)
         else True)"

subsection \<open>Basic scanning\<close>

text \<open>
  An element that an image selector matches, as \<^verbatim>\<open>extractImageData\<close> reads it: its
  \<^verbatim>\<open>alt\<close> text, the URL that \<^verbatim>\<open>extractImageUrl\<close> finds for it in its attributes, its
  \<^verbatim>\<open>srcset\<close> or its parents (none when it finds none), its natural size, its layout
  size, and the size that \<^verbatim>\<open>getImageDimensions\<close> loads for the URL. The document is
  given by what \<^verbatim>\<open>document.querySelectorAll\<close> returns for each selector; the
  selectors of the site pattern are taken to be valid, so that the call does not throw.
\<close>

record image_element =
  e_alt :: string
  e_url :: "string option"
  naturalWidth :: nat
  naturalHeight :: nat
  e_width :: nat
  e_height :: nat
  loadedWidth :: nat
  loadedHeight :: nat

type_synonym dom = "(string \<times> image_element list) list"









subsection \<open>Filtering and processing\<close>

text \<open>
  \<^verbatim>\<open>passesFilters\<close> checks the file type, the size, the URL and the key, in this
  order, and records the key of an image it lets pass. \<^verbatim>\<open>isValidImageUrl\<close> rests on
  the browser's URL parser and is a parameter here.
\<close>

definition passesFilters ::
  "(string \<Rightarrow> bool) \<Rightarrow> scan_settings \<Rightarrow> image_data \<Rightarrow> scanned_images \<Rightarrow> bool \<times> scanned_images"
  where
  "passesFilters isValidImageUrl s imageData scannedImages =
     (if \<not> passesFileTypeFilter s imageData then (False, scannedImages)
      else if int (width imageData) < minWidth s \<or> int (height imageData) < minHeight s
      then (False, scannedImages)
      else if \<not> isValidImageUrl (i_url imageData) then (False, scannedImages)
      else if scannedImages (generateImageKey imageData) \<noteq> None then (False, scannedImages)
      else (True, scannedImages(generateImageKey imageData \<mapsto> imageData)))"


text \<open>
  A processed image carries its key as \<open>id\<close>. The download URL, the file name and the
  formatted size that \<^verbatim>\<open>processImageData\<close> also adds are texts derived from the
  fields kept here.
\<close>

record processed_image = image_data +
  p_id :: string

definition processImageData :: "image_data \<Rightarrow> processed_image" where
  "processImageData imageData = image_data.extend imageData \<lparr>p_id = generateImageKey imageData\<rparr>"





subsection \<open>Infinite scroll\<close>



subsection \<open>Canvas, blob and video extraction\<close>

text \<open>
  What the page holds: a canvas with its size and the data URL \<^verbatim>\<open>toDataURL\<close> gives
  (none when it throws), an element with the URL of its background image (none when
  it has no such image) and the size \<^verbatim>\<open>getImageDimensions\<close> finds for it, a video
  with the size of its frame and the data URL of the frame drawn (none when drawing
  throws).
\<close>

record canvas_element =
  c_width :: nat
  c_height :: nat
  c_dataUrl :: "string option"

record background_element =
  bg_url :: "string option"
  bg_width :: nat
  bg_height :: nat

record video_element =
  videoWidth :: nat
  videoHeight :: nat
  v_frame :: "string option"

text \<open>
  A page as one scan meets it: the image selectors and the characteristics that the
  site pattern manager reports for the site, the document at the first basic scan,
  after \<^verbatim>\<open>handleLazyLoading\<close> and at the attempts of \<^verbatim>\<open>handleInfiniteScroll\<close>, and the
  canvases, the elements with a background image and the videos of the document at
  the fourth phase.
\<close>

record page =
  imageSelectors :: "string list"
  hasLazyLoading :: bool
  hasInfiniteScroll :: bool
  document :: dom
  afterLazyLoading :: dom
  scrollRounds :: "(dom \<times> bool) list"
  canvases :: "canvas_element list"
  backgrounds :: "background_element list"
  videos :: "video_element list"

text \<open>
  One pass of each extraction loop: the candidate the loop pushes for an element, if
  it pushes one.
\<close>

definition canvasCandidate :: "scan_settings \<Rightarrow> nat \<Rightarrow> canvas_element \<Rightarrow> image_data option" where
  "canvasCandidate s i canvas =
     (if int (c_width canvas) > minWidth s \<and> int (c_height canvas) > minHeight s
      then map_option
             (\<lambda>dataUrl. \<lparr>i_url = dataUrl, i_alt = ''Canvas Image '' @ dec (i + 1),
                          width = c_width canvas, height = c_height canvas, i_type = ''canvas'',
                          i_estimatedSize = real (c_width canvas * c_height canvas * 4)\<rparr>)
             (c_dataUrl canvas)
      else None)"

fun extractCanvases :: "scan_settings \<Rightarrow> nat \<Rightarrow> canvas_element list \<Rightarrow> image_data list" where
  "extractCanvases s i [] = []"
| "extractCanvases s i (canvas # rest) =
     (case canvasCandidate s i canvas of
        None \<Rightarrow> extractCanvases s (i + 1) rest
      | Some img \<Rightarrow> img # extractCanvases s (i + 1) rest)"

definition backgroundCandidate ::
  "(string \<Rightarrow> bool) \<Rightarrow> scan_settings \<Rightarrow> background_element \<Rightarrow> image_data option" where
  "backgroundCandidate isValidImageUrl s element =
     (case bg_url element of
        None \<Rightarrow> None
      | Some u \<Rightarrow>
          if u \<noteq> [] \<and> prefix ''blob:'' u \<and> isValidImageUrl u \<and>
             int (bg_width element) \<ge> minWidth s \<and> int (bg_height element) \<ge> minHeight s
          then Some \<lparr>i_url = u, i_alt = ''Background Blob Image'',
                      width = bg_width element, height = bg_height element, i_type = ''blob'',
                      i_estimatedSize = real (bg_width element * bg_height element * 3)\<rparr>
          else None)"

fun extractBlobFromBackgrounds ::
  "(string \<Rightarrow> bool) \<Rightarrow> scan_settings \<Rightarrow> background_element list \<Rightarrow> image_data list" where
  "extractBlobFromBackgrounds isValidImageUrl s [] = []"
| "extractBlobFromBackgrounds isValidImageUrl s (element # rest) =
     (case backgroundCandidate isValidImageUrl s element of
        None \<Rightarrow> extractBlobFromBackgrounds isValidImageUrl s rest
      | Some img \<Rightarrow> img # extractBlobFromBackgrounds isValidImageUrl s rest)"

definition videoCandidate :: "scan_settings \<Rightarrow> nat \<Rightarrow> video_element \<Rightarrow> image_data option" where
  "videoCandidate s i video =
     (if int (videoWidth video) > minWidth s \<and> int (videoHeight video) > minHeight s
      then map_option
             (\<lambda>dataUrl. \<lparr>i_url = dataUrl, i_alt = ''Video Frame '' @ dec (i + 1),
                          width = videoWidth video, height = videoHeight video,
                          i_type = ''video-frame'',
                          i_estimatedSize = real (videoWidth video * videoHeight video * 4)\<rparr>)
             (v_frame video)
      else None)"

fun extractVideos :: "scan_settings \<Rightarrow> nat \<Rightarrow> video_element list \<Rightarrow> image_data list" where
  "extractVideos s i [] = []"
| "extractVideos s i (video # rest) =
     (case videoCandidate s i video of
        None \<Rightarrow> extractVideos s (i + 1) rest
      | Some img \<Rightarrow> img # extractVideos s (i + 1) rest)"

definition extractVideoFrames :: "scan_settings \<Rightarrow> page \<Rightarrow> image_data list" where
  "extractVideoFrames s p = extractVideos s 0 (videos p)"

definition extractCanvasImages :: "(string \<Rightarrow> bool) \<Rightarrow> scan_settings \<Rightarrow> page \<Rightarrow> image_data list" where
  "extractCanvasImages isValidImageUrl s p =
     (if \<not> ft_blob (fileTypes s) then []
      else extractCanvases s 0 (canvases p)
           @ extractBlobFromBackgrounds isValidImageUrl s (backgrounds p)
           @ extractVideoFrames s p)"

subsection \<open>The scan\<close>




subsection \<open>Example pages\<close>

text \<open>
  The file types of the default settings, settings with given minimum sizes, and a
  URL check that accepts every URL.
\<close>

definition default_types :: file_types where
  "default_types = \<lparr>ft_jpg = True, ft_png = True, ft_webp = True, ft_gif = True,
      ft_svg = False, ft_blob = True\<rparr>"

definition min_size :: "int \<Rightarrow> int \<Rightarrow> scan_settings" where
  "min_size w h = \<lparr>fileTypes = default_types, minWidth = w, minHeight = h, infiniteScroll = True\<rparr>"

definition any_url :: "string \<Rightarrow> bool" where
  "any_url u = True"



definition blob_image :: "string \<Rightarrow> nat \<Rightarrow> nat \<Rightarrow> image_data" where
  "blob_image u w h = \<lparr>i_url = u, i_alt = ''Background Blob Image'', width = w, height = h,
      i_type = ''blob'', i_estimatedSize = real (w * h * 3)\<rparr>"




text \<open>
  A page with a canvas of exactly 200 by 200, a canvas of 201 by 201 and a video whose
  frame is 200 wide.
\<close>

definition canvas_page :: page where
  "canvas_page =
     \<lparr>imageSelectors = [], hasLazyLoading = False, hasInfiniteScroll = False,
      document = [], afterLazyLoading = [], scrollRounds = [],
      canvases = [\<lparr>c_width = 200, c_height = 200, c_dataUrl = Some ''data:image/png;base64,AA''\<rparr>,
                  \<lparr>c_width = 201, c_height = 201, c_dataUrl = Some ''data:image/png;base64,BB''\<rparr>],
      backgrounds = [],
      videos = [\<lparr>videoWidth = 200, videoHeight = 300, v_frame = Some ''data:image/png;base64,CC''\<rparr>]\<rparr>"

section \<open>Image extractor (src/content/conten.css, class AdvancedImageExtractor)\<close>

subsection \<open>The browser\<close>

record blob =
  b_type :: string
  b_size :: nat

text \<open>
  What \<^verbatim>\<open>fetch\<close> does with a URL under a timeout: it answers with a status and a
  body (none when reading the body fails), it is aborted when the timeout fires, or it
  rejects, as it does when the cross-origin check refuses the request.
\<close>

datatype fetch_outcome =
  Responded bool nat string "blob option"
| Aborted
| Rejected string

text \<open>
  The browser functions the extractor calls: \<^verbatim>\<open>fetch\<close>, \<^verbatim>\<open>encodeURIComponent\<close> (which
  throws on a malformed string) and \<^verbatim>\<open>URL.createObjectURL\<close>.
\<close>

record browser =
  fetch :: "string \<Rightarrow> nat \<Rightarrow> fetch_outcome"
  encodeURIComponent :: "string \<Rightarrow> string + string"
  createObjectURL :: "blob \<Rightarrow> string"

record extract_config =
  useCorsProxy :: bool
  timeout :: nat

text \<open>The extractor: its list of proxy prefixes and the counter of blocked fetches.\<close>

record extractor =
  corsProxyUrls :: "string list"
  corsBlocked :: nat

definition newExtractor :: extractor where
  "newExtractor =
     \<lparr>corsProxyUrls = [''https://api.allorigins.win/raw?url='',
                        ''https://cors-anywhere.herokuapp.com/'',
                        ''https://proxy.cors.sh/''],
      corsBlocked = 0\<rparr>"

subsection \<open>Fetching\<close>

text \<open>
  \<^verbatim>\<open>fetchWithTimeout\<close> followed by \<^verbatim>\<open>response.blob()\<close>: the blob, or the message of
  the error thrown.
\<close>

definition fetchWithTimeout :: "browser \<Rightarrow> string \<Rightarrow> nat \<Rightarrow> string + blob option" where
  "fetchWithTimeout b u t =
     (case fetch b u t of
        Responded ok status statusText body \<Rightarrow>
          if \<not> ok then Inl (''HTTP '' @ dec status @ '': '' @ statusText) else Inr body
      | Aborted \<Rightarrow> Inl (''Request timeout after '' @ dec t @ ''ms'')
      | Rejected message \<Rightarrow> Inl message)"

definition fetchBlob :: "browser \<Rightarrow> string \<Rightarrow> nat \<Rightarrow> string + blob" where
  "fetchBlob b u t =
     (case fetchWithTimeout b u t of
        Inl message \<Rightarrow> Inl message
      | Inr None \<Rightarrow> Inl ''Failed to read body''
      | Inr (Some body) \<Rightarrow> Inr body)"

subsection \<open>handleRemoteUrl\<close>

text \<open>
  The three descriptors \<^verbatim>\<open>handleRemoteUrl\<close> returns, by their \<open>type\<close>:
  \<open>remote-direct\<close> (url, blob, downloadUrl), \<open>remote-proxy\<close> (url, proxiedUrl, blob,
  downloadUrl) and \<open>remote-fallback\<close> (url, downloadUrl, error).
\<close>

datatype remote_result =
  RemoteDirect string blob string
| RemoteProxy string string blob string
| RemoteFallback string string "string option"

text \<open>One pass of the loop over the proxies: the proxied URL and the blob, or the error caught.\<close>

definition proxyAttempt :: "browser \<Rightarrow> extract_config \<Rightarrow> string \<Rightarrow> string \<Rightarrow> string + string \<times> blob" where
  "proxyAttempt b config u proxyUrl =
     (case encodeURIComponent b u of
        Inl message \<Rightarrow> Inl message
      | Inr encoded \<Rightarrow>
          (case fetchBlob b (proxyUrl @ encoded) (timeout config) of
             Inl message \<Rightarrow> Inl message
           | Inr body \<Rightarrow> Inr (proxyUrl @ encoded, body)))"

fun tryProxies ::
  "browser \<Rightarrow> extract_config \<Rightarrow> string \<Rightarrow> string list \<Rightarrow> string option \<Rightarrow> remote_result" where
  "tryProxies b config u [] lastError = RemoteFallback u u lastError"
| "tryProxies b config u (proxyUrl # rest) lastError =
     (case proxyAttempt b config u proxyUrl of
        Inl message \<Rightarrow> tryProxies b config u rest (Some message)
      | Inr (proxiedUrl, body) \<Rightarrow> RemoteProxy u proxiedUrl body (createObjectURL b body))"

text \<open>
  Every step of \<^verbatim>\<open>handleRemoteUrl\<close> that can throw stands in a \<^verbatim>\<open>try\<close> block, so the
  function always returns a descriptor; with it, the extractor and its counter.
\<close>

definition handleRemoteUrl ::
  "browser \<Rightarrow> extract_config \<Rightarrow> extractor \<Rightarrow> string \<Rightarrow> remote_result \<times> extractor" where
  "handleRemoteUrl b config ex u =
     (case fetchBlob b u (timeout config) of
        Inr body \<Rightarrow> (RemoteDirect u body (createObjectURL b body), ex)
      | Inl message \<Rightarrow>
          (let ex1 = ex\<lparr>corsBlocked := corsBlocked ex + 1\<rparr>
           in if useCorsProxy config
              then (tryProxies b config u (corsProxyUrls ex1) (Some message), ex1)
              else (RemoteFallback u u (Some message), ex1)))"

text \<open>What the caller downloads from: the \<open>downloadUrl\<close> of a descriptor.\<close>

fun downloadUrl :: "remote_result \<Rightarrow> string" where
  "downloadUrl (RemoteDirect u body d) = d"
| "downloadUrl (RemoteProxy u proxiedUrl body d) = d"
| "downloadUrl (RemoteFallback u d message) = d"

subsection \<open>An example network\<close>

text \<open>
  A network that refuses the direct request, answers 403 through the first proxy and
  delivers the image through the second.
\<close>

definition example_blob :: blob where
  "example_blob = \<lparr>b_type = ''image/jpeg'', b_size = 1000\<rparr>"

definition example_browser :: browser where
  "example_browser =
     \<lparr>fetch = (\<lambda>u t.
         if u = ''https://api.allorigins.win/raw?url=https%3A%2F%2Fh%2Fa.jpg''
         then Responded False 403 ''Forbidden'' None
         else if u = ''https://cors-anywhere.herokuapp.com/https%3A%2F%2Fh%2Fa.jpg''
         then Responded True 200 ''OK'' (Some example_blob)
         else Rejected ''Failed to fetch''),
      encodeURIComponent = (\<lambda>u. if u = ''https://h/a.jpg'' then Inr ''https%3A%2F%2Fh%2Fa.jpg''
                                  else Inl ''URI malformed''),
      createObjectURL = (\<lambda>body. ''blob:1'')\<rparr>"

definition with_proxy :: extract_config where
  "with_proxy = \<lparr>useCorsProxy = True, timeout = 30000\<rparr>"

definition without_proxy :: extract_config where
  "without_proxy = \<lparr>useCorsProxy = False, timeout = 30000\<rparr>"

section \<open>Verification: shared lemmas\<close>

subsection \<open>Sorting\<close>

lemma set_js_insert: "set (js_insert cmp x xs) = insert x (set xs)"
  by (induction xs) auto

lemma set_js_sort: "set (js_sort cmp xs) = set xs"
  unfolding js_sort_def by (induction xs) (auto simp: set_js_insert)

lemma length_js_insert: "length (js_insert cmp x xs) = Suc (length xs)"
  by (induction xs) auto

lemma length_js_sort: "length (js_sort cmp xs) = length xs"
  unfolding js_sort_def by (induction xs) (auto simp: length_js_insert)

lemma sorted_js_insert:
  assumes tot: "\<And>a b. cmp a b \<le> 0 \<or> cmp b a \<le> 0"
    and trans: "\<And>a b c. cmp a b \<le> 0 \<Longrightarrow> cmp b c \<le> 0 \<Longrightarrow> cmp a c \<le> 0"
  shows "sorted_wrt (\<lambda>a b. cmp a b \<le> 0) xs \<Longrightarrow> sorted_wrt (\<lambda>a b. cmp a b \<le> 0) (js_insert cmp x xs)"
proof (induction xs)
  case Nil
  then show ?case by simp
next
  case (Cons y ys)
  show ?case
  proof (cases "cmp x y \<le> 0")
    case True
    with Cons.prems show ?thesis by (auto intro: trans)
  next
    case False
    then have "cmp y x \<le> 0" using tot by blast
    with False Cons show ?thesis by (auto simp: set_js_insert)
  qed
qed

lemma sorted_js_sort:
  assumes tot: "\<And>a b. cmp a b \<le> 0 \<or> cmp b a \<le> 0"
    and trans: "\<And>a b c. cmp a b \<le> 0 \<Longrightarrow> cmp b c \<le> 0 \<Longrightarrow> cmp a c \<le> 0"
  shows "sorted_wrt (\<lambda>a b. cmp a b \<le> 0) (js_sort cmp xs)"
proof (induction xs)
  case Nil
  then show ?case by (simp add: js_sort_def)
next
  case (Cons x xs)
  have "js_sort cmp (x # xs) = js_insert cmp x (js_sort cmp xs)"
    by (simp add: js_sort_def)
  with Cons sorted_js_insert [of cmp, OF tot trans] show ?case by simp
qed

subsection \<open>The map of queues and the set of paused ids\<close>

lemma getQueue_setQueue: "getQueue (setQueue k q m) k' = (if k' = k then Some q else getQueue m k')"
  by (simp add: getQueue_def setQueue_def update_conv')

lemma getQueue_pausedQueues_update [simp]: "getQueue (m\<lparr>pausedQueues := p\<rparr>) k = getQueue m k"
  by (simp add: getQueue_def)

lemma set_set_add [simp]: "set (set_add x xs) = insert x (set xs)"
  by (auto simp: set_add_def)

lemma pausedQueues_setQueue [simp]: "pausedQueues (setQueue k q m) = pausedQueues m"
  by (simp add: setQueue_def)

lemma fold_id: "(\<And>x s. x \<in> set xs \<Longrightarrow> P s \<Longrightarrow> f x s = s) \<Longrightarrow> P s \<Longrightarrow> fold f xs s = s"
  by (induction xs) auto

subsection \<open>Items looked up by id\<close>

lemma find_iid: "find (\<lambda>i. iid i = k) xs = Some item \<Longrightarrow> iid item = k"
  by (induction xs) (auto split: if_splits)

lemma find_iid_Some: "i \<in> set xs \<Longrightarrow> iid i = k \<Longrightarrow> \<exists>item. find (\<lambda>i. iid i = k) xs = Some item"
  by (induction xs) auto

section \<open>Verification: queue manager\<close>

subsection \<open>Priority order\<close>

lemma compareItems_le:
  "compareItems a b \<le> 0 \<longleftrightarrow>
     priority b < priority a \<or> (priority a = priority b \<and> addedAt a \<le> addedAt b)"
  by (auto simp: compareItems_def)

lemma sorted_sortQueueByPriority:
  "sorted_wrt (\<lambda>a b. priority b < priority a \<or> (priority a = priority b \<and> addedAt a \<le> addedAt b))
     (items (sortQueueByPriority q))"
proof -
  have "sorted_wrt (\<lambda>a b. compareItems a b \<le> 0) (js_sort compareItems (items q))"
    by (rule sorted_js_sort) (auto simp: compareItems_le)
  then show ?thesis by (simp add: sortQueueByPriority_def compareItems_le)
qed

lemma map_of_update_same: "map_of (AList.update k v al) k = Some v"
  by (simp add: update_conv')

lemma addToQueue_sorted:
  assumes "addToQueue m queueId its now = (Inr ids, m')"
  shows "\<exists>q'. getQueue m' queueId = Some q' \<and>
     sorted_wrt (\<lambda>a b. priority b < priority a \<or> (priority a = priority b \<and> addedAt a \<le> addedAt b)) (items q')"
proof (cases "getQueue m queueId")
  case None
  with assms show ?thesis by (simp add: addToQueue_def)
next
  case (Some q)
  let ?queueItems = "map (\<lambda>(index, item). mkQueueItem q queueId now index item) (enumerate 0 its)"
  let ?q3 = "q\<lparr>items := items q @ ?queueItems,
      progress := (progress q)\<lparr>total_p := total_p (progress q) + int (length ?queueItems)\<rparr>,
      statistics := (statistics q)\<lparr>totalSize := totalSize (statistics q)
                            + foldl (\<lambda>s i. s + js_or (estimatedSize i) 0) 0 ?queueItems\<rparr>\<rparr>"
  from assms Some have "getQueue m' queueId = Some (sortQueueByPriority ?q3)"
    by (auto simp: addToQueue_def Let_def setQueue_def getQueue_def map_of_update_same split: if_splits)
  then show ?thesis using sorted_sortQueueByPriority [of ?q3] by simp
qed

lemma sorted_pendingItems:
  "sorted_wrt (\<lambda>a b. priority b \<le> priority a) (pendingItems q)"
proof -
  let ?cmp = "\<lambda>a b :: queue_item. priority b - priority a"
  have "sorted_wrt (\<lambda>a b. ?cmp a b \<le> 0) (js_sort ?cmp (filter (\<lambda>item. istatus item = Pending) (items q)))"
    by (rule sorted_js_sort) auto
  then have "sorted_wrt (\<lambda>a b. ?cmp a b \<le> 0) (pendingItems q)"
    unfolding pendingItems_def by (rule sorted_wrt_take)
  then show ?thesis by simp
qed

lemma sorted_take_closed:
  assumes s: "sorted_wrt (\<lambda>a b. f b \<le> (f a :: int)) xs"
    and b: "b \<in> set (take n xs)" and a: "a \<in> set xs" and lt: "f b < f a"
  shows "a \<in> set (take n xs)"
proof -
  from b obtain j where j: "j < length (take n xs)" "take n xs ! j = b"
    by (auto simp: in_set_conv_nth)
  from a obtain i where i: "i < length xs" "xs ! i = a"
    by (auto simp: in_set_conv_nth)
  from j have jn: "j < n" "j < length xs" "xs ! j = b" by auto
  have "i < n"
  proof (rule ccontr)
    assume "\<not> i < n"
    with jn have "j < i" by simp
    with s i jn have "f (xs ! i) \<le> f (xs ! j)"
      by (auto simp: sorted_wrt_iff_nth_less)
    with i jn lt show False by simp
  qed
  with i show ?thesis by (auto simp: in_set_conv_nth intro!: exI [of _ i])
qed

lemma pendingItems_closed:
  assumes "a \<in> set (items q)" "istatus a = Pending" "b \<in> set (pendingItems q)" "priority b < priority a"
  shows "a \<in> set (pendingItems q)"
proof -
  let ?cmp = "\<lambda>a b :: queue_item. priority b - priority a"
  let ?xs = "js_sort ?cmp (filter (\<lambda>item. istatus item = Pending) (items q))"
  have "sorted_wrt (\<lambda>a b. ?cmp a b \<le> 0) ?xs"
    by (rule sorted_js_sort) auto
  then have s: "sorted_wrt (\<lambda>a b. priority b \<le> priority a) ?xs" by simp
  have a: "a \<in> set ?xs" using assms by (simp add: set_js_sort)
  show ?thesis
    using sorted_take_closed [OF s _ a assms(4)] assms(3)
    unfolding pendingItems_def by blast
qed

lemma pendingItems_all:
  assumes "int (length (filter (\<lambda>item. istatus item = Pending) (items q))) \<le> availableSlots q"
  shows "set (pendingItems q) = {item \<in> set (items q). istatus item = Pending}"
  using assms by (auto simp: pendingItems_def set_js_sort length_js_sort)

subsection \<open>The order of starts\<close>

lemma startedItems_append: "startedItems (xs @ ys) = startedItems xs @ startedItems ys"
  by (induction xs rule: startedItems.induct) auto

lemma startDownload_started:
  "startedItems (events (snd (startDownload now item (q, m)))) = startedItems (events m) @ [iid item]"
  by (simp add: startDownload_def notify_def Let_def startedItems_append)

text \<open>
  The loop starts the next item of its selection whenever the queue still holds it:
  neither the status of the item nor the other items of the queue are looked at.
\<close>

lemma continueLoop_starts:
  assumes "getQueue m queueId = Some q" "find (\<lambda>i. iid i = itemId) (items q) = Some item"
  shows "startedItems (events (fst (continueLoop now queueId awaited (itemId # rest) m)))
           = startedItems (events m) @ [itemId]
       \<and> \<not> snd (continueLoop now queueId awaited (itemId # rest) m)"
proof -
  obtain q1 m1 where s: "startDownload now item (q, m) = (q1, m1)" by fastforce
  from startDownload_started [of now item q m] s find_iid [OF assms(2)]
  have "startedItems (events m1) = startedItems (events m) @ [itemId]" by simp
  with assms s show ?thesis by (simp add: setQueue_def)
qed

subsection \<open>Priority order (C1)\<close>

text \<open>
  Claim C1, at inputs where the code departs from it. After \<^verbatim>\<open>addToQueue\<close> the list
  is sorted, and \<^verbatim>\<open>processQueue\<close> selects the pending items of highest priority (the
  lemmas on the priority order above). But its loop awaits each download before it
  starts the next item of its selection, and starts that item without looking at it
  or at the queue again.

  For the queue of priorities 1, 5, 3 with downloads slower than the tick, the ticks
  start the items of priorities 3 and 1 while the first download is under way, and
  when that download resolves the first call starts the item of priority 3 a second
  time: the starts are 5, 3, 1, 3, and the item has two downloads under way.

  For the queue of priorities 3, 1 to which an item of priority 5 is added during the
  first download: when the download is rejected, the items of priorities 5 and 1 are
  both pending and all three slots are free; the loop starts the item of priority 1,
  and the item of priority 5 waits for the next tick.
\<close>

theorem stale_selection_started:
  "map (\<lambda>i. (iid i, priority i)) (items example_queue)
     = [(''q_item_2_0'', 5), (''q_item_3_0'', 3), (''q_item_1_0'', 1)]
   \<and> startedItems (events slow_downloads)
     = [''q_item_2_0'', ''q_item_3_0'', ''q_item_1_0'', ''q_item_3_0'']
   \<and> map (\<lambda>i. (priority i, istatus i, attempts i)) (items (the (getQueue slow_downloads ''q'')))
     = [(5, Completed, 1), (3, Downloading, 2), (1, Downloading, 1)]
   \<and> map (\<lambda>i. (iid i, priority i, istatus i)) (items (the (getQueue added_before ''q'')))
     = [(''q_item_300_0'', 5, Pending), (''q_item_1_0'', 3, Downloading), (''q_item_2_0'', 1, Pending)]
   \<and> map (\<lambda>i. (iid i, priority i, istatus i)) (items (the (getQueue added_meanwhile ''q'')))
     = [(''q_item_300_0'', 5, Pending), (''q_item_1_0'', 3, Failed), (''q_item_2_0'', 1, Downloading)]
   \<and> availableSlots (the (getQueue added_meanwhile ''q'')) = 2
   \<and> startedItems (events added_meanwhile) = [''q_item_1_0'', ''q_item_2_0'']
   \<and> startedItems (events added_meanwhile_tick) = [''q_item_1_0'', ''q_item_2_0'', ''q_item_300_0'']"
  by code_simp

subsection \<open>Retry timers\<close>

lemma putItem_fields [simp]:
  "qid (putItem item q) = qid q" "options (putItem item q) = options q"
  "qstatus (putItem item q) = qstatus q" "progress (putItem item q) = progress q"
  "activeDownloads (putItem item q) = activeDownloads q"
  "failedItems (putItem item q) = failedItems q" "retryQueue (putItem item q) = retryQueue q"
  "statistics (putItem item q) = statistics q"
  by (simp_all add: putItem_def)

lemma putItem_statuses:
  "map istatus (items (putItem item q))
     = map (\<lambda>i. if iid i = iid item then istatus item else istatus i) (items q)"
  by (simp add: putItem_def)

lemma putItem_ids: "map iid (items (putItem item q)) = map iid (items q)"
  by (simp add: putItem_def)

lemma handleDownloadError_timers:
  "timers (snd (handleDownloadError item message (q, m))) =
     (if int (attempts item) < retryAttempts (options q)
      then timers m @ [\<lparr>t_delay = of_int (retryDelay (options q)) * 2 powi (int (attempts item) - 1),
                          t_queue = qid q, t_item = iid item\<rparr>]
      else timers m)"
  by (simp add: handleDownloadError_def scheduleRetry_def retryDelayFor_def notify_def Let_def)

lemma timers_notify [simp]: "timers (notify e m) = timers m"
  by (simp add: notify_def)

lemma startDownload_fields:
  "options (fst (startDownload now item (q, m))) = options q"
  "qid (fst (startDownload now item (q, m))) = qid q"
  "timers (snd (startDownload now item (q, m))) = timers m"
  by (simp_all add: startDownload_def Let_def)

lemma startDownload_failure_timers:
  "timers (snd (downloadSettled (DownloadError message)
                  (item\<lparr>istatus := Downloading, startedAt := Some now, attempts := attempts item + 1\<rparr>)
                  (startDownload now item (q, m)))) =
     (if int (attempts item) + 1 < retryAttempts (options q)
      then timers m @ [\<lparr>t_delay = of_int (retryDelay (options q)) * 2 ^ attempts item,
                          t_queue = qid q, t_item = iid item\<rparr>]
      else timers m)"
proof -
  obtain q' m' where s: "startDownload now item (q, m) = (q', m')" by fastforce
  with startDownload_fields [of now item q m]
  have "options q' = options q" "qid q' = qid q" "timers m' = timers m" by simp_all
  then show ?thesis
    by (simp add: s downloadSettled_def handleDownloadError_timers power_int_def)
qed

lemma retryDelayFor_mono:
  assumes "0 \<le> retryDelay (options q)" "attempts a \<le> attempts b"
  shows "retryDelayFor q a \<le> retryDelayFor q b"
proof -
  have "(2::real) powi (int (attempts a) - 1) \<le> 2 powi (int (attempts b) - 1)"
    using assms(2) by (intro power_int_increasing) auto
  then show ?thesis
    using assms(1) unfolding retryDelayFor_def by (intro mult_left_mono) auto
qed

lemma retryCallback_running:
  "qstatus q = QRunning \<Longrightarrow>
     map istatus (items (fst (retryCallback item (q, m))))
       = map (\<lambda>i. if iid i = iid item then Pending else istatus i) (items q)"
  by (simp add: retryCallback_def Let_def putItem_statuses)

lemma getQueue_timers_update [simp]: "getQueue (m\<lparr>timers := t\<rparr>) k = getQueue m k"
  by (simp add: getQueue_def)

lemma retryTimerFired_running:
  assumes "getQueue m (t_queue t) = Some q" "qstatus q = QRunning"
    "i \<in> set (items q)" "iid i = t_item t"
  shows "\<exists>q'. getQueue (retryTimerFired t m) (t_queue t) = Some q' \<and>
     map istatus (items q') = map (\<lambda>i. if iid i = t_item t then Pending else istatus i) (items q)"
proof -
  from find_iid_Some [OF assms(3,4)] obtain item
    where f: "find (\<lambda>i. iid i = t_item t) (items q) = Some item" by blast
  then have id: "iid item = t_item t" by (rule find_iid)
  obtain q1 m1 where r: "retryCallback item (q, m\<lparr>timers := remove1 t (timers m)\<rparr>) = (q1, m1)"
    by fastforce
  have "retryTimerFired t m = setQueue (t_queue t) q1 m1"
    using assms(1) f r by (simp add: retryTimerFired_def Let_def)
  moreover have "map istatus (items q1) = map (\<lambda>i. if iid i = t_item t then Pending else istatus i) (items q)"
    using retryCallback_running [OF assms(2), of item "m\<lparr>timers := remove1 t (timers m)\<rparr>"] r id
    by simp
  ultimately show ?thesis by (simp add: getQueue_setQueue)
qed

subsection \<open>Exponential backoff (C4)\<close>

text \<open>
  Claim C4. A failure below the cap (\<open>attempts < retryAttempts\<close>) sets one timer whose
  delay is \<open>retryDelay * 2^(attempts - 1)\<close>, where \<open>attempts\<close> counts the executions
  made, the failed one included; seen from \<^verbatim>\<open>startDownload\<close>, which increments the
  count and whose download is then rejected, that is \<open>retryDelay * 2^n\<close> for an item
  started \<open>n\<close> times before. For a
  delay setting that is not negative the delay does not decrease as the attempts
  grow. When a timer's delay elapses and its queue is running, the item is set to
  \<open>pending\<close>.
\<close>

theorem retry_backoff:
  "(int (attempts item) < retryAttempts (options q) \<longrightarrow>
      timers (snd (handleDownloadError item message (q, m))) =
        timers m @ [\<lparr>t_delay = of_int (retryDelay (options q)) * 2 powi (int (attempts item) - 1),
                       t_queue = qid q, t_item = iid item\<rparr>])
   \<and> (int (attempts item) + 1 < retryAttempts (options q) \<longrightarrow>
      timers (snd (downloadSettled (DownloadError message)
                     (item\<lparr>istatus := Downloading, startedAt := Some now,
                           attempts := attempts item + 1\<rparr>)
                     (startDownload now item (q, m)))) =
        timers m @ [\<lparr>t_delay = of_int (retryDelay (options q)) * 2 ^ attempts item,
                       t_queue = qid q, t_item = iid item\<rparr>])
   \<and> (0 \<le> retryDelay (options q) \<and> attempts a \<le> attempts b \<longrightarrow>
        retryDelayFor q a \<le> retryDelayFor q b)
   \<and> (getQueue m (t_queue t) = Some q \<and> qstatus q = QRunning \<and> i \<in> set (items q) \<and>
        iid i = t_item t \<longrightarrow>
      (\<exists>q'. getQueue (retryTimerFired t m) (t_queue t) = Some q' \<and>
            map istatus (items q') =
              map (\<lambda>i. if iid i = t_item t then Pending else istatus i) (items q)))"
proof (intro conjI impI)
  assume "int (attempts item) < retryAttempts (options q)"
  then show "timers (snd (handleDownloadError item message (q, m))) =
        timers m @ [\<lparr>t_delay = of_int (retryDelay (options q)) * 2 powi (int (attempts item) - 1),
                       t_queue = qid q, t_item = iid item\<rparr>]"
    by (simp add: handleDownloadError_timers)
next
  assume "int (attempts item) + 1 < retryAttempts (options q)"
  with startDownload_failure_timers [of message item now q m] show "timers (snd (downloadSettled (DownloadError message)
                     (item\<lparr>istatus := Downloading, startedAt := Some now,
                           attempts := attempts item + 1\<rparr>)
                     (startDownload now item (q, m)))) =
        timers m @ [\<lparr>t_delay = of_int (retryDelay (options q)) * 2 ^ attempts item,
                       t_queue = qid q, t_item = iid item\<rparr>]"
    by simp
next
  assume "0 \<le> retryDelay (options q) \<and> attempts a \<le> attempts b"
  then show "retryDelayFor q a \<le> retryDelayFor q b"
    by (simp add: retryDelayFor_mono)
next
  assume "getQueue m (t_queue t) = Some q \<and> qstatus q = QRunning \<and> i \<in> set (items q) \<and>
        iid i = t_item t"
  then show "\<exists>q'. getQueue (retryTimerFired t m) (t_queue t) = Some q' \<and>
            map istatus (items q') =
              map (\<lambda>i. if iid i = t_item t then Pending else istatus i) (items q)"
    using retryTimerFired_running by blast
qed

text \<open>The second failure of an item under \<open>retryAttempts = 3\<close>: delays 1000, then 2000.\<close>

lemma failed_once_facts:
  "getQueue (first_failure 3 1000) ''q'' = Some failed_once_queue"
  "qstatus failed_once_queue = QRunning"
  "items failed_once_queue = [failed_once_item]"
  "iid failed_once_item = ''q_item_1_0''"
  "attempts failed_once_item = 1"
  "istatus failed_once_item = Failed"
  "retryAttempts (options failed_once_queue) = 3"
  "retryDelay (options failed_once_queue) = 1000"
  "qid failed_once_queue = ''q''"
  "timers (first_failure 3 1000) = [\<lparr>t_delay = 1000, t_queue = ''q'', t_item = ''q_item_1_0''\<rparr>]"
  by code_simp+

theorem retry_backoff_witness:
  "timers (snd (handleDownloadError (item_started failed_once_item 7) ''fail'' (failed_once_queue, first_failure 3 1000)))
      = timers (first_failure 3 1000) @ [\<lparr>t_delay = 2000, t_queue = ''q'', t_item = ''q_item_1_0''\<rparr>]
   \<and> timers (snd (downloadSettled (DownloadError ''fail'') (item_started failed_once_item 7)
                     (startDownload 7 failed_once_item (failed_once_queue, first_failure 3 1000))))
      = timers (first_failure 3 1000) @ [\<lparr>t_delay = 2000, t_queue = ''q'', t_item = ''q_item_1_0''\<rparr>]
   \<and> retryDelayFor failed_once_queue failed_once_item
        \<le> retryDelayFor failed_once_queue (item_started failed_once_item 7)
   \<and> (\<exists>q'. getQueue (retryTimerFired \<lparr>t_delay = 1000, t_queue = ''q'', t_item = ''q_item_1_0''\<rparr>
                          (first_failure 3 1000)) ''q'' = Some q' \<and>
            map istatus (items q') = [Pending])"
  using retry_backoff [of "item_started failed_once_item 7" failed_once_queue "''fail''"
          "first_failure 3 1000" 7 failed_once_item "item_started failed_once_item 7"
          "\<lparr>t_delay = 1000, t_queue = ''q'', t_item = ''q_item_1_0''\<rparr>" failed_once_item]
    retry_backoff [of failed_once_item failed_once_queue "''fail''"
          "first_failure 3 1000" 7]
    failed_once_facts
  by (simp add: item_started_def)

subsection \<open>The retry cap (C2)\<close>

lemma retryCallback_not_running: "qstatus q \<noteq> QRunning \<Longrightarrow> retryCallback item (q, m) = (q, m)"
  by (simp add: retryCallback_def)

lemma processQueue_completes:
  assumes "getQueue m queueId = Some q" "0 < availableSlots q" "pendingItems q = []"
    "activeDownloads q = []" "retryQueue q = []" "qstatus q \<noteq> QCompleted"
  shows "map_option qstatus (getQueue (fst (processQueue now awaited queueId m)) queueId)
           = Some QCompleted
       \<and> timers (fst (processQueue now awaited queueId m)) = timers m"
proof -
  from assms have p: "processQueue now awaited queueId m =
      (setQueue queueId (q\<lparr>qstatus := QCompleted,
                           statistics := (statistics q)\<lparr>qcompletedAt := Some now\<rparr>\<rparr>)
         (notify (QueueEvent ''completed'' (qid q)) m), True)"
    by (simp add: processQueue_def completeQueue_def Let_def)
  show ?thesis
    by (simp add: p getQueue_setQueue) (simp add: setQueue_def notify_def)
qed

text \<open>
  Claim C2, at inputs where the code departs from it. \<^verbatim>\<open>handleDownloadError\<close> sets a
  retry timer while \<open>attempts < retryAttempts\<close>, where \<open>attempts\<close> counts the first
  execution too, and \<^verbatim>\<open>processQueue\<close> completes a queue that has nothing pending or
  active and an empty \<^verbatim>\<open>retryQueue\<close>, a list that nothing ever adds to: pending retry
  timers do not keep the queue from completing, and the callback of a timer does
  nothing once the queue is not running (the two lemmas above).

  With \<open>retryAttempts = 2\<close>, one item and every download rejected: after the first
  failure the item waits for its retry timer. With the default delay the tick comes
  first and completes the queue; when the timer elapses the queue is not running and
  the item stays as it is, failed after one execution and never retried. With a delay
  short enough for the timer to come first, the item is executed a second time and
  is then left failed: two failures and one retry. In neither order are there three
  failures and two retries.

  With \<open>retryAttempts = 1\<close> and two items: the second item fails, which is final for
  it, while a call of \<^verbatim>\<open>processQueue\<close> that selected it earlier is still waiting for
  the first item; when that call goes on, it starts the failed item again.
\<close>

theorem retry_dropped_or_short:
  "map (\<lambda>i. (istatus i, attempts i)) (items (the (getQueue (first_failure 2 1000) ''q'')))
     = [(Failed, 1)]
   \<and> timers (first_failure 2 1000) = [\<lparr>t_delay = 1000, t_queue = ''q'', t_item = ''q_item_1_0''\<rparr>]
   \<and> retryQueue (the (getQueue (first_failure 2 1000) ''q'')) = []
   \<and> startedItems (events tick_before_timer) = [''q_item_1_0'']
   \<and> totalFailed (mstatistics tick_before_timer) = 1
   \<and> totalRetried (mstatistics tick_before_timer) = 0
   \<and> timers tick_before_timer = []
   \<and> map (\<lambda>(k, q). (qstatus q, retryAttempts (options q), map (\<lambda>i. (istatus i, attempts i)) (items q)))
         (queues tick_before_timer) = [(QCompleted, 2, [(Failed, 1)])]
   \<and> timers (first_failure 2 100) = [\<lparr>t_delay = 100, t_queue = ''q'', t_item = ''q_item_1_0''\<rparr>]
   \<and> startedItems (events timer_before_tick) = [''q_item_1_0'', ''q_item_1_0'']
   \<and> totalFailed (mstatistics timer_before_tick) = 2
   \<and> totalRetried (mstatistics timer_before_tick) = 1
   \<and> timers timer_before_tick = []
   \<and> map (\<lambda>(k, q). (qstatus q, retryAttempts (options q), map (\<lambda>i. (istatus i, attempts i)) (items q)))
         (queues timer_before_tick) = [(QCompleted, 2, [(Failed, 2)])]
   \<and> map (\<lambda>(k, q). (retryAttempts (options q), map (\<lambda>i. (iid i, istatus i, attempts i)) (items q)))
         (queues capped) = [(1, [(''q_item_1_0'', Downloading, 1), (''q_item_1_1'', Failed, 1)])]
   \<and> timers capped = []
   \<and> map (\<lambda>(k, q). map (\<lambda>i. (iid i, istatus i, attempts i)) (items q)) (queues started_past_cap)
         = [[(''q_item_1_0'', Failed, 1), (''q_item_1_1'', Downloading, 2)]]
   \<and> startedItems (events started_past_cap) = [''q_item_1_0'', ''q_item_1_1'', ''q_item_1_1'']"
  by code_simp

subsection \<open>Resuming a queue paused for two reasons (C3)\<close>

text \<open>
  Claim C3, at the input where the code departs from it. The queue is running; the
  browser goes offline and the queue is paused for the reason \<open>network\<close>; the tab is
  hidden, which leaves the paused queue as it is; the tab is shown and
  \<^verbatim>\<open>resumeAllQueues\<close> sets the queue running although the browser is still offline.
  The reason handed to \<^verbatim>\<open>resumeAllQueues\<close> makes no difference to what it does.
\<close>

theorem resumed_while_offline:
  "map_option qstatus (getQueue interrupted_manager ''q'') = Some QRunning
   \<and> map_option qstatus (getQueue offline_hidden ''q'') = Some QPaused
   \<and> map_option pauseReason (getQueue offline_hidden ''q'') = Some (Some ''network'')
   \<and> \<not> online offline_hidden
   \<and> fst (eventListener Visible offline_hidden) = None
   \<and> map_option qstatus (getQueue offline_hidden_shown ''q'') = Some QRunning
   \<and> \<not> online offline_hidden_shown
   \<and> resumeAllQueues ''visibility'' m = resumeAllQueues ''network'' m"
proof -
  have "map_option qstatus (getQueue interrupted_manager ''q'') = Some QRunning
   \<and> map_option qstatus (getQueue offline_hidden ''q'') = Some QPaused
   \<and> map_option pauseReason (getQueue offline_hidden ''q'') = Some (Some ''network'')
   \<and> \<not> online offline_hidden
   \<and> fst (eventListener Visible offline_hidden) = None
   \<and> map_option qstatus (getQueue offline_hidden_shown ''q'') = Some QRunning
   \<and> \<not> online offline_hidden_shown"
    by code_simp
  then show ?thesis by (simp add: resumeAllQueues_def)
qed

subsection \<open>Persistence round trip (C5)\<close>

lemma restoreQueue_simps:
  "qid (restoreQueue q) = qid q"
  "qstatus (restoreQueue q) = QPaused"
  "activeDownloads (restoreQueue q) = []"
  "items (restoreQueue q) = map (\<lambda>item. if istatus item = Downloading then item\<lparr>istatus := Pending\<rparr> else item) (items q)"
  "options (restoreQueue q) = options q"
  "progress (restoreQueue q) = progress q"
  "statistics (restoreQueue q) = statistics q"
  by (simp_all add: restoreQueue_def Let_def)

lemma restoreQueue_no_downloading: "Downloading \<notin> istatus ` set (items (restoreQueue q))"
  by (auto simp: restoreQueue_simps)

lemma restoreQueue_statuses:
  "map istatus (items (restoreQueue q))
     = map (\<lambda>item. if istatus item = Downloading then Pending else istatus item) (items q)"
  by (simp add: restoreQueue_simps)

lemma restoreQueue_ignores_active: "restoreQueue (q\<lparr>activeDownloads := a\<rparr>) = restoreQueue q"
  by (simp add: restoreQueue_def Let_def)

lemma load_snoc:
  "loadPersistedQueues (saved @ [q]) m =
     (let m' = loadPersistedQueues saved m; m1 = setQueue (qid q) (restoreQueue q) m'
      in m1\<lparr>pausedQueues := set_add (qid q) (pausedQueues m1)\<rparr>)"
  by (simp add: loadPersistedQueues_def Let_def restoreQueue_simps)

lemma load_restored:
  "q \<in> set saved \<Longrightarrow>
     \<exists>q'. getQueue (loadPersistedQueues saved m) (qid q) = Some q' \<and> qstatus q' = QPaused \<and>
          Downloading \<notin> istatus ` set (items q') \<and> activeDownloads q' = [] \<and>
          qid q \<in> set (pausedQueues (loadPersistedQueues saved m))"
proof (induction saved rule: rev_induct)
  case Nil
  then show ?case by simp
next
  case (snoc x xs)
  show ?case
  proof (cases "qid x = qid q")
    case True
    then show ?thesis
      using restoreQueue_no_downloading [of x]
      by (simp add: load_snoc Let_def getQueue_setQueue restoreQueue_simps(2,3))
  next
    case False
    with snoc show ?thesis
      by (auto simp: load_snoc Let_def getQueue_setQueue)
  qed
qed

lemma load_distinct:
  "distinct (map qid saved) \<Longrightarrow> q \<in> set saved \<Longrightarrow>
     getQueue (loadPersistedQueues saved m) (qid q) = Some (restoreQueue q)"
proof (induction saved rule: rev_induct)
  case Nil
  then show ?case by simp
next
  case (snoc x xs)
  show ?case
  proof (cases "q = x")
    case True
    then show ?thesis by (simp add: load_snoc Let_def getQueue_setQueue)
  next
    case False
    with snoc.prems have "q \<in> set xs" "qid x \<noteq> qid q" by auto
    with snoc show ?thesis by (simp add: load_snoc Let_def getQueue_setQueue)
  qed
qed

lemma persistQueues_ids:
  "\<forall>(k, q) \<in> set (queues m0). qid q = k \<Longrightarrow> map qid (persistQueues m0) = map fst (queues m0)"
  by (auto simp: persistQueues_def)

lemma round_trip:
  assumes "distinct (map fst (queues m0))" "\<forall>(k, q) \<in> set (queues m0). qid q = k"
    "(k, q0) \<in> set (queues m0)"
  shows "getQueue (loadPersistedQueues (persistQueues m0) m) k = Some (restoreQueue q0)"
proof -
  have d: "distinct (map qid (persistQueues m0))"
    using assms(1,2) by (simp add: persistQueues_ids)
  have mem: "q0\<lparr>activeDownloads := []\<rparr> \<in> set (persistQueues m0)"
    using assms(3) by (force simp: persistQueues_def)
  have "qid (q0\<lparr>activeDownloads := []\<rparr>) = k" using assms(2,3) by auto
  with load_distinct [OF d mem, of m] show ?thesis
    by (simp add: restoreQueue_ignores_active)
qed

lemma all_paused_update:
  "\<forall>(k, q) \<in> set al. qstatus q = QPaused \<Longrightarrow> qstatus v = QPaused \<Longrightarrow>
     \<forall>(k, q) \<in> set (AList.update key v al). qstatus q = QPaused"
  by (induction al) (auto simp: AList.update.simps)

lemma load_all_paused:
  "\<forall>(k, q) \<in> set (queues m). qstatus q = QPaused \<Longrightarrow>
     \<forall>(k, q) \<in> set (queues (loadPersistedQueues saved m)). qstatus q = QPaused"
proof (induction saved rule: rev_induct)
  case Nil
  then show ?case by (simp add: loadPersistedQueues_def)
next
  case (snoc x xs)
  then have "\<forall>(k, q) \<in> set (queues (loadPersistedQueues xs m)). qstatus q = QPaused" by simp
  from all_paused_update [OF this, of "restoreQueue x" "qid x"]
  show ?case by (simp add: load_snoc Let_def setQueue_def restoreQueue_simps)
qed

lemma processQueuesFrom_all_paused:
  assumes "\<forall>(k, q) \<in> set (queues m). qstatus q = QPaused"
  shows "processQueuesFrom now ids m = m"
proof (induction ids)
  case Nil
  show ?case by simp
next
  case (Cons queueId ids)
  show ?case
  proof (cases "getQueue m queueId")
    case None
    with Cons show ?thesis by simp
  next
    case (Some q)
    then have "(queueId, q) \<in> set (queues m)"
      by (auto simp: getQueue_def dest: map_of_SomeD)
    with assms have "qstatus q = QPaused" by auto
    with Some Cons show ?thesis by simp
  qed
qed

lemma restored_tick:
  "processQueues now (loadPersistedQueues saved newManager) = loadPersistedQueues saved newManager"
proof -
  have "\<forall>(k, q) \<in> set (queues (loadPersistedQueues saved newManager)). qstatus q = QPaused"
    by (rule load_all_paused) (simp add: newManager_def)
  then show ?thesis by (simp add: processQueues_def processQueuesFrom_all_paused)
qed

text \<open>
  Claim C5, at the input where the code departs from it. \<^verbatim>\<open>loadPersistedQueues\<close> sets
  every restored queue to paused and every \<open>downloading\<close> item to \<open>pending\<close>, and a tick
  right after it starts nothing (the lemmas above). It also puts the id of each
  restored queue into the set of paused ids, which is the set that
  \<^verbatim>\<open>resumeAllQueues\<close> runs over whatever the reason of the pause. So the first time the
  tab is shown, or the browser reports \<open>online\<close>, the restored queue is set running,
  and the next tick starts its first item, with no call to resume or start the queue
  from outside.
\<close>

theorem restored_queue_resumed_by_event:
  "map (\<lambda>(k, q). (qstatus q, map istatus (items q))) (queues started_manager)
     = [(QRunning, [Downloading, Pending, Pending])]
   \<and> map (\<lambda>(k, q). (qstatus q, map istatus (items q))) (queues restored_manager)
     = [(QPaused, [Pending, Pending, Pending])]
   \<and> pausedQueues restored_manager = [''q'']
   \<and> events restored_manager = []
   \<and> run [(400, Tick)] restored_manager = restored_manager
   \<and> map (\<lambda>(k, q). (qstatus q, map istatus (items q))) (queues restored_shown)
     = [(QRunning, [Pending, Pending, Pending])]
   \<and> map (\<lambda>(k, q). (qstatus q, map istatus (items q))) (queues restored_shown_tick)
     = [(QRunning, [Downloading, Pending, Pending])]
   \<and> events restored_shown_tick
     = [QueueEvent ''resumed'' ''q'', ItemEvent ''started'' ''q_item_2_0'' ''q'']
   \<and> events restored_online_tick
     = [QueueEvent ''resumed'' ''q'', ItemEvent ''started'' ''q_item_2_0'' ''q'']"
proof -
  have "run [(400, Tick)] restored_manager = restored_manager"
    by (simp add: run_def restored_manager_def restored_tick)
  moreover have "map (\<lambda>(k, q). (qstatus q, map istatus (items q))) (queues started_manager)
     = [(QRunning, [Downloading, Pending, Pending])]
   \<and> map (\<lambda>(k, q). (qstatus q, map istatus (items q))) (queues restored_manager)
     = [(QPaused, [Pending, Pending, Pending])]
   \<and> pausedQueues restored_manager = [''q'']
   \<and> events restored_manager = []
   \<and> map (\<lambda>(k, q). (qstatus q, map istatus (items q))) (queues restored_shown)
     = [(QRunning, [Pending, Pending, Pending])]
   \<and> map (\<lambda>(k, q). (qstatus q, map istatus (items q))) (queues restored_shown_tick)
     = [(QRunning, [Downloading, Pending, Pending])]
   \<and> events restored_shown_tick
     = [QueueEvent ''resumed'' ''q'', ItemEvent ''started'' ''q_item_2_0'' ''q'']
   \<and> events restored_online_tick
     = [QueueEvent ''resumed'' ''q'', ItemEvent ''started'' ''q_item_2_0'' ''q'']"
    by code_simp
  ultimately show ?thesis by simp
qed

subsection \<open>Failure of addToQueue (C9)\<close>

lemma addToQueue_unknown:
  "getQueue m queueId = None \<Longrightarrow> addToQueue m queueId its now = (Inl (QueueNotFound queueId), m)"
  by (simp add: addToQueue_def)

lemma addToQueue_too_many:
  "getQueue m queueId = Some q \<Longrightarrow> maxQueueSize (settings m) < int (length (items q)) + int (length its)
     \<Longrightarrow> addToQueue m queueId its now = (Inl (QueueSizeLimit (maxQueueSize (settings m))), m)"
  by (simp add: addToQueue_def)

lemma addToQueue_failure_cases:
  "fst (addToQueue m queueId its now) = Inl e \<Longrightarrow>
     (getQueue m queueId = None \<and> e = QueueNotFound queueId) \<or>
     (\<exists>q. getQueue m queueId = Some q \<and> maxQueueSize (settings m) < int (length (items q)) + int (length its)
          \<and> e = QueueSizeLimit (maxQueueSize (settings m)))"
  by (auto simp: addToQueue_def Let_def split: option.splits if_splits)

lemma addToQueue_failure_state:
  "fst (addToQueue m queueId its now) = Inl e \<Longrightarrow> snd (addToQueue m queueId its now) = m"
  by (auto simp: addToQueue_def Let_def split: option.splits if_splits)

text \<open>
  Claim C9. \<^verbatim>\<open>addToQueue\<close> fails for an unknown queue id and when the new items
  would take the queue beyond \<open>maxQueueSize\<close>; whenever it fails it does so for one of
  these two reasons and leaves the whole state of the manager as it was: the queue's
  items, progress and statistics, and the manager's own statistics.
\<close>

theorem addToQueue_atomic:
  "(getQueue m queueId = None \<longrightarrow>
      addToQueue m queueId its now = (Inl (QueueNotFound queueId), m))
   \<and> (getQueue m queueId = Some q \<and>
        maxQueueSize (settings m) < int (length (items q)) + int (length its) \<longrightarrow>
      addToQueue m queueId its now = (Inl (QueueSizeLimit (maxQueueSize (settings m))), m))
   \<and> (fst (addToQueue m queueId its now) = Inl e \<longrightarrow>
        snd (addToQueue m queueId its now) = m \<and>
        getQueue (snd (addToQueue m queueId its now)) queueId = getQueue m queueId \<and>
        mstatistics (snd (addToQueue m queueId its now)) = mstatistics m \<and>
        ((getQueue m queueId = None \<and> e = QueueNotFound queueId) \<or>
         (\<exists>q0. getQueue m queueId = Some q0 \<and>
               maxQueueSize (settings m) < int (length (items q0)) + int (length its) \<and>
               e = QueueSizeLimit (maxQueueSize (settings m)))))"
  using addToQueue_unknown [of m queueId its now] addToQueue_too_many [of m queueId q its now]
    addToQueue_failure_cases [of m queueId its now e] addToQueue_failure_state [of m queueId its now e]
  by auto

text \<open>Both failures at the manager with room for four items, whose queue holds three.\<close>

lemma small_lookup: "getQueue small_manager ''q'' = Some example_queue"
  by code_simp
lemma small_none: "getQueue small_manager ''r'' = None"
  by code_simp
lemma small_size: "maxQueueSize (settings small_manager) = 4 \<and> length (items example_queue) = 3"
  by code_simp

theorem addToQueue_atomic_witness:
  "addToQueue small_manager ''r'' [example_item 2, example_item 7] 9 = (Inl (QueueNotFound ''r''), small_manager)
   \<and> addToQueue small_manager ''q'' [example_item 2, example_item 7] 9 = (Inl (QueueSizeLimit 4), small_manager)
   \<and> getQueue (snd (addToQueue small_manager ''q'' [example_item 2, example_item 7] 9)) ''q'' = Some example_queue"
  using addToQueue_atomic [of small_manager "''r''" "[example_item 2, example_item 7]" 9 example_queue "QueueNotFound ''r''"]
        addToQueue_atomic [of small_manager "''q''" "[example_item 2, example_item 7]" 9 example_queue "QueueSizeLimit 4"]
        small_lookup small_none small_size
  by simp

section \<open>Verification: content scanner\<close>

subsection \<open>Decimal printing and image keys\<close>

lemma digit_inj: "a < 10 \<Longrightarrow> b < 10 \<Longrightarrow> digit a = digit b \<Longrightarrow> a = b"
proof -
  assume a: "a < 10" and b: "b < 10" and e: "digit a = digit b"
  from e have "(of_char (char_of (48 + a) :: char) :: nat) = of_char (char_of (48 + b) :: char)"
    by (simp add: digit_def)
  with a b show "a = b" by (simp add: of_char_of)
qed



lemma dec_not_Nil: "dec n \<noteq> []"
  by (subst dec.simps) simp



lemma dec_inj: "dec a = dec b \<Longrightarrow> a = b"
proof (induction a arbitrary: b rule: dec.induct)
  case (1 a)
  show ?case
  proof (cases "a < 10")
    case True
    note a = this
    show ?thesis
    proof (cases "b < 10")
      case True
      with a "1.prems" show ?thesis
        by (subst (asm) dec.simps, subst (asm) (2) dec.simps) (auto dest: digit_inj)
    next
      case False
      with a "1.prems" have "[digit a] = dec (b div 10) @ [digit (b mod 10)]"
        by (subst (asm) dec.simps, subst (asm) (2) dec.simps) auto
      then have "dec (b div 10) = []" by simp
      then show ?thesis by (simp add: dec_not_Nil)
    qed
  next
    case False
    note a = this
    show ?thesis
    proof (cases "b < 10")
      case True
      with a "1.prems" have "dec (a div 10) @ [digit (a mod 10)] = [digit b]"
        by (subst (asm) dec.simps, subst (asm) (2) dec.simps) auto
      then have "dec (a div 10) = []" by simp
      then show ?thesis by (simp add: dec_not_Nil)
    next
      case False
      with a "1.prems" have "dec (a div 10) @ [digit (a mod 10)] = dec (b div 10) @ [digit (b mod 10)]"
        by (subst (asm) dec.simps, subst (asm) (2) dec.simps) auto
      then have e: "dec (a div 10) = dec (b div 10)" "digit (a mod 10) = digit (b mod 10)" by auto
      from "1.IH" [OF a e(1)] have "a div 10 = b div 10" .
      moreover from e(2) have "a mod 10 = b mod 10"
        using digit_inj [of "a mod 10" "b mod 10"] by simp
      ultimately show ?thesis by (metis div_mult_mod_eq)
    qed
  qed
qed





subsection \<open>The filter\<close>

lemma passesFilters_iff:
  "fst (passesFilters v s x sc) \<longleftrightarrow>
     passesFileTypeFilter s x \<and> minWidth s \<le> int (width x) \<and> minHeight s \<le> int (height x) \<and>
     v (i_url x) \<and> sc (generateImageKey x) = None"
  by (auto simp: passesFilters_def)









lemma key_processImageData [simp]: "generateImageKey (processImageData x) = generateImageKey x"
  by (simp add: generateImageKey_def processImageData_def image_data.defs)

lemma fields_processImageData [simp]:
  "width (processImageData x) = width x" "height (processImageData x) = height x"
  "i_url (processImageData x) = i_url x" "i_type (processImageData x) = i_type x"
  "i_estimatedSize (processImageData x) = i_estimatedSize x" "i_alt (processImageData x) = i_alt x"
  by (simp_all add: processImageData_def image_data.defs)







subsection \<open>The candidates of the fourth phase\<close>

lemma extractCanvases_Cons:
  "set (extractCanvases s i (x # xs)) =
     (if minWidth s < int (c_width x) \<and> minHeight s < int (c_height x) \<and> c_dataUrl x \<noteq> None
      then {\<lparr>i_url = the (c_dataUrl x), i_alt = ''Canvas Image '' @ dec (i + 1),
             width = c_width x, height = c_height x, i_type = ''canvas'',
             i_estimatedSize = real (c_width x * c_height x * 4)\<rparr>}
      else {}) \<union> set (extractCanvases s (i + 1) xs)"
  by (cases "c_dataUrl x") (simp_all add: canvasCandidate_def)

lemma extractVideos_Cons:
  "set (extractVideos s i (x # xs)) =
     (if minWidth s < int (videoWidth x) \<and> minHeight s < int (videoHeight x) \<and> v_frame x \<noteq> None
      then {\<lparr>i_url = the (v_frame x), i_alt = ''Video Frame '' @ dec (i + 1),
             width = videoWidth x, height = videoHeight x, i_type = ''video-frame'',
             i_estimatedSize = real (videoWidth x * videoHeight x * 4)\<rparr>}
      else {}) \<union> set (extractVideos s (i + 1) xs)"
  by (cases "v_frame x") (simp_all add: videoCandidate_def)

lemma extractBlob_Cons:
  "set (extractBlobFromBackgrounds v s (x # xs)) =
     (if bg_url x \<noteq> None \<and> the (bg_url x) \<noteq> [] \<and> prefix ''blob:'' (the (bg_url x)) \<and>
         v (the (bg_url x)) \<and> minWidth s \<le> int (bg_width x) \<and> minHeight s \<le> int (bg_height x)
      then {\<lparr>i_url = the (bg_url x), i_alt = ''Background Blob Image'',
             width = bg_width x, height = bg_height x, i_type = ''blob'',
             i_estimatedSize = real (bg_width x * bg_height x * 3)\<rparr>}
      else {}) \<union> set (extractBlobFromBackgrounds v s xs)"
  by (cases "bg_url x") (simp_all add: backgroundCandidate_def)

lemmas extract_Cons_del = extractCanvases.simps(2) extractVideos.simps(2)
  extractBlobFromBackgrounds.simps(2)

lemma extractCanvases_sizes:
  "c \<in> set (extractCanvases s i cs) \<Longrightarrow>
     minWidth s < int (width c) \<and> minHeight s < int (height c) \<and> i_type c = ''canvas''"
proof (induction cs arbitrary: i)
  case Nil
  then show ?case by simp
next
  case (Cons x xs)
  from Cons.prems Cons.IH [of "i + 1"] show ?case
    by (cases "c \<in> set (extractCanvases s (i + 1) xs)")
       (auto simp: extractCanvases_Cons simp del: extract_Cons_del split: if_splits)
qed

lemma extractVideos_sizes:
  "c \<in> set (extractVideos s i vs) \<Longrightarrow>
     minWidth s < int (width c) \<and> minHeight s < int (height c) \<and> i_type c = ''video-frame''"
proof (induction vs arbitrary: i)
  case Nil
  then show ?case by simp
next
  case (Cons x xs)
  from Cons.prems Cons.IH [of "i + 1"] show ?case
    by (cases "c \<in> set (extractVideos s (i + 1) xs)")
       (auto simp: extractVideos_Cons simp del: extract_Cons_del split: if_splits)
qed

lemma extractBlob_type:
  "c \<in> set (extractBlobFromBackgrounds v s bs) \<Longrightarrow>
     i_type c = ''blob'' \<and> i_alt c = ''Background Blob Image''"
proof (induction bs)
  case Nil
  then show ?case by simp
next
  case (Cons x xs)
  from Cons.prems Cons.IH show ?case
    by (cases "c \<in> set (extractBlobFromBackgrounds v s xs)")
       (auto simp: extractBlob_Cons simp del: extract_Cons_del split: if_splits)
qed



subsection \<open>The basic scan\<close>









subsection \<open>The scan\<close>





subsection \<open>Deduplication (C6)\<close>



text \<open>The page with blob backgrounds of one key, scanned once and scanned again.\<close>

lemma min_size_fields [simp]:
  "minWidth (min_size w h) = w" "minHeight (min_size w h) = h"
  "fileTypes (min_size w h) = default_types" "infiniteScroll (min_size w h)"
  by (simp_all add: min_size_def)

lemma blob_image_fields [simp]:
  "width (blob_image u w h) = w" "height (blob_image u w h) = h" "i_url (blob_image u w h) = u"
  "i_type (blob_image u w h) = ''blob''"
  "i_estimatedSize (blob_image u w h) = real (w * h * 3)"
  by (simp_all add: blob_image_def)

lemma passesFileTypeFilter_blob [simp]: "passesFileTypeFilter (min_size w h) (blob_image u a b)"
  by (simp add: passesFileTypeFilter_def default_types_def)











subsection \<open>Minimum dimensions (C7)\<close>






subsection \<open>Canvas and video frames (C10)\<close>

lemma extractCanvases_alts:
  "i_alt ` set (extractCanvases s i cs) =
     {''Canvas Image '' @ dec (i + k + 1) | k. k < length cs \<and>
        minWidth s < int (c_width (cs ! k)) \<and> minHeight s < int (c_height (cs ! k)) \<and>
        c_dataUrl (cs ! k) \<noteq> None}"
proof (induction cs arbitrary: i)
  case Nil
  then show ?case by simp
next
  case (Cons c cs)
  let ?ok = "\<lambda>c. minWidth s < int (c_width c) \<and> minHeight s < int (c_height c) \<and> c_dataUrl c \<noteq> None"
  have "{''Canvas Image '' @ dec (i + k + 1) | k. k < length (c # cs) \<and> ?ok ((c # cs) ! k)}
      = (if ?ok c then {''Canvas Image '' @ dec (i + 1)} else {})
        \<union> {''Canvas Image '' @ dec (i + 1 + k + 1) | k. k < length cs \<and> ?ok (cs ! k)}"
    (is "?L = ?R")
  proof
    show "?L \<subseteq> ?R"
    proof
      fix a assume "a \<in> ?L"
      then obtain k where k: "a = ''Canvas Image '' @ dec (i + k + 1)" "k < length (c # cs)"
        "?ok ((c # cs) ! k)" by blast
      show "a \<in> ?R"
      proof (cases k)
        case 0
        with k show ?thesis by simp
      next
        case (Suc j)
        with k have "a = ''Canvas Image '' @ dec (i + 1 + j + 1)" "j < length cs" "?ok (cs ! j)"
          by simp_all
        then show ?thesis by blast
      qed
    qed
  next
    show "?R \<subseteq> ?L"
    proof
      fix a assume "a \<in> ?R"
      then consider "?ok c" "a = ''Canvas Image '' @ dec (i + 1)"
        | j where "a = ''Canvas Image '' @ dec (i + 1 + j + 1)" "j < length cs" "?ok (cs ! j)"
        by (auto split: if_splits)
      then show "a \<in> ?L"
      proof cases
        case 1
        then have "a = ''Canvas Image '' @ dec (i + 0 + 1) \<and> 0 < length (c # cs) \<and> ?ok ((c # cs) ! 0)"
          by simp
        then show ?thesis by blast
      next
        case 2
        then have "a = ''Canvas Image '' @ dec (i + Suc j + 1) \<and> Suc j < length (c # cs) \<and>
            ?ok ((c # cs) ! Suc j)" by simp
        then show ?thesis by blast
      qed
    qed
  qed
  moreover have "i_alt ` set (extractCanvases s i (c # cs))
      = (if ?ok c then {''Canvas Image '' @ dec (i + 1)} else {})
        \<union> i_alt ` set (extractCanvases s (i + 1) cs)"
    by (auto simp: extractCanvases_Cons simp del: extract_Cons_del)
  ultimately show ?case using Cons.IH [of "i + 1"] by simp
qed

lemma extractVideos_alts:
  "i_alt ` set (extractVideos s i vs) =
     {''Video Frame '' @ dec (i + k + 1) | k. k < length vs \<and>
        minWidth s < int (videoWidth (vs ! k)) \<and> minHeight s < int (videoHeight (vs ! k)) \<and>
        v_frame (vs ! k) \<noteq> None}"
proof (induction vs arbitrary: i)
  case Nil
  then show ?case by simp
next
  case (Cons c cs)
  let ?ok = "\<lambda>c. minWidth s < int (videoWidth c) \<and> minHeight s < int (videoHeight c) \<and> v_frame c \<noteq> None"
  have "{''Video Frame '' @ dec (i + k + 1) | k. k < length (c # cs) \<and> ?ok ((c # cs) ! k)}
      = (if ?ok c then {''Video Frame '' @ dec (i + 1)} else {})
        \<union> {''Video Frame '' @ dec (i + 1 + k + 1) | k. k < length cs \<and> ?ok (cs ! k)}"
    (is "?L = ?R")
  proof
    show "?L \<subseteq> ?R"
    proof
      fix a assume "a \<in> ?L"
      then obtain k where k: "a = ''Video Frame '' @ dec (i + k + 1)" "k < length (c # cs)"
        "?ok ((c # cs) ! k)" by blast
      show "a \<in> ?R"
      proof (cases k)
        case 0
        with k show ?thesis by simp
      next
        case (Suc j)
        with k have "a = ''Video Frame '' @ dec (i + 1 + j + 1)" "j < length cs" "?ok (cs ! j)"
          by simp_all
        then show ?thesis by blast
      qed
    qed
  next
    show "?R \<subseteq> ?L"
    proof
      fix a assume "a \<in> ?R"
      then consider "?ok c" "a = ''Video Frame '' @ dec (i + 1)"
        | j where "a = ''Video Frame '' @ dec (i + 1 + j + 1)" "j < length cs" "?ok (cs ! j)"
        by (auto split: if_splits)
      then show "a \<in> ?L"
      proof cases
        case 1
        then have "a = ''Video Frame '' @ dec (i + 0 + 1) \<and> 0 < length (c # cs) \<and> ?ok ((c # cs) ! 0)"
          by simp
        then show ?thesis by blast
      next
        case 2
        then have "a = ''Video Frame '' @ dec (i + Suc j + 1) \<and> Suc j < length (c # cs) \<and>
            ?ok ((c # cs) ! Suc j)" by simp
        then show ?thesis by blast
      qed
    qed
  qed
  moreover have "i_alt ` set (extractVideos s i (c # cs))
      = (if ?ok c then {''Video Frame '' @ dec (i + 1)} else {})
        \<union> i_alt ` set (extractVideos s (i + 1) cs)"
    by (auto simp: extractVideos_Cons simp del: extract_Cons_del)
  ultimately show ?case using Cons.IH [of "i + 1"] by simp
qed

lemma extractCanvasImages_alts:
  "i_alt ` set (extractCanvasImages v s p) \<subseteq>
     i_alt ` set (extractCanvases s 0 (canvases p)) \<union> {''Background Blob Image''}
       \<union> i_alt ` set (extractVideos s 0 (videos p))"
  by (auto simp: extractCanvasImages_def extractVideoFrames_def dest: extractBlob_type)

lemma canvas_not_emitted:
  assumes "k < length (canvases p)"
    "int (c_width (canvases p ! k)) = minWidth s \<or> int (c_height (canvases p ! k)) = minHeight s"
  shows "''Canvas Image '' @ dec (k + 1) \<notin> i_alt ` set (extractCanvasImages v s p)"
proof
  assume "''Canvas Image '' @ dec (k + 1) \<in> i_alt ` set (extractCanvasImages v s p)"
  with extractCanvasImages_alts [of v s p]
  consider "''Canvas Image '' @ dec (k + 1) \<in> i_alt ` set (extractCanvases s 0 (canvases p))"
    | "''Canvas Image '' @ dec (k + 1) = ''Background Blob Image''"
    | "''Canvas Image '' @ dec (k + 1) \<in> i_alt ` set (extractVideos s 0 (videos p))"
    by blast
  then show False
  proof cases
    case 1
    then obtain j where "''Canvas Image '' @ dec (k + 1) = ''Canvas Image '' @ dec (0 + j + 1)"
      "minWidth s < int (c_width (canvases p ! j))" "minHeight s < int (c_height (canvases p ! j))"
      unfolding extractCanvases_alts by blast
    then have "j = k" "minWidth s < int (c_width (canvases p ! j))"
      "minHeight s < int (c_height (canvases p ! j))" by (auto dest: dec_inj)
    with assms(2) show False by auto
  next
    case 2
    then show False by simp
  next
    case 3
    then show False unfolding extractVideos_alts by auto
  qed
qed

lemma video_not_emitted:
  assumes "k < length (videos p)"
    "int (videoWidth (videos p ! k)) = minWidth s \<or> int (videoHeight (videos p ! k)) = minHeight s"
  shows "''Video Frame '' @ dec (k + 1) \<notin> i_alt ` set (extractCanvasImages v s p)"
proof
  assume "''Video Frame '' @ dec (k + 1) \<in> i_alt ` set (extractCanvasImages v s p)"
  with extractCanvasImages_alts [of v s p]
  consider "''Video Frame '' @ dec (k + 1) \<in> i_alt ` set (extractCanvases s 0 (canvases p))"
    | "''Video Frame '' @ dec (k + 1) = ''Background Blob Image''"
    | "''Video Frame '' @ dec (k + 1) \<in> i_alt ` set (extractVideos s 0 (videos p))"
    by blast
  then show False
  proof cases
    case 1
    then show False unfolding extractCanvases_alts by auto
  next
    case 2
    then show False by simp
  next
    case 3
    then obtain j where "''Video Frame '' @ dec (k + 1) = ''Video Frame '' @ dec (0 + j + 1)"
      "minWidth s < int (videoWidth (videos p ! j))" "minHeight s < int (videoHeight (videos p ! j))"
      unfolding extractVideos_alts by blast
    then have "j = k" "minWidth s < int (videoWidth (videos p ! j))"
      "minHeight s < int (videoHeight (videos p ! j))" by (auto dest: dec_inj)
    with assms(2) show False by auto
  qed
qed

lemma canvas_emitted:
  assumes "ft_blob (fileTypes s)" "k < length (canvases p)"
    "minWidth s < int (c_width (canvases p ! k))" "minHeight s < int (c_height (canvases p ! k))"
    "c_dataUrl (canvases p ! k) \<noteq> None"
  shows "''Canvas Image '' @ dec (k + 1) \<in> i_alt ` set (extractCanvasImages v s p)"
proof -
  have "''Canvas Image '' @ dec (0 + k + 1) \<in> i_alt ` set (extractCanvases s 0 (canvases p))"
    unfolding extractCanvases_alts using assms by blast
  with assms(1) show ?thesis by (auto simp: extractCanvasImages_def)
qed

lemma extractCanvasImages_sizes:
  assumes "c \<in> set (extractCanvasImages v s p)" "i_type c = ''canvas'' \<or> i_type c = ''video-frame''"
  shows "minWidth s < int (width c) \<and> minHeight s < int (height c)"
proof -
  from assms(1) consider "c \<in> set (extractCanvases s 0 (canvases p))"
    | "c \<in> set (extractBlobFromBackgrounds v s (backgrounds p))"
    | "c \<in> set (extractVideos s 0 (videos p))"
    by (auto simp: extractCanvasImages_def extractVideoFrames_def split: if_splits)
  then show ?thesis
  proof cases
    case 1
    then show ?thesis using extractCanvases_sizes by blast
  next
    case 2
    with assms(2) show ?thesis using extractBlob_type [of c v s "backgrounds p"] by auto
  next
    case 3
    then show ?thesis using extractVideos_sizes by blast
  qed
qed

text \<open>
  Claim C10. Every candidate of type \<open>canvas\<close> or \<open>video-frame\<close> that
  \<^verbatim>\<open>extractCanvasImages\<close> emits is strictly wider and strictly higher than the
  minimums. The canvas (the video) at index \<open>k\<close> whose width equals \<open>minWidth\<close> or whose
  height equals \<open>minHeight\<close> has no candidate: none is named \<open>Canvas Image k+1\<close>
  (\<open>Video Frame k+1\<close>). A canvas strictly above both minimums whose data URL can be
  read has one, when blob sources are enabled. The general filter, unlike this, lets
  an image of exactly the minimum size pass.
\<close>

theorem canvas_video_exclusive_boundary:
  "(c \<in> set (extractCanvasImages v s p) \<and> (i_type c = ''canvas'' \<or> i_type c = ''video-frame'')
      \<longrightarrow> minWidth s < int (width c) \<and> minHeight s < int (height c))
   \<and> (k < length (canvases p) \<and>
        (int (c_width (canvases p ! k)) = minWidth s \<or> int (c_height (canvases p ! k)) = minHeight s)
      \<longrightarrow> ''Canvas Image '' @ dec (k + 1) \<notin> i_alt ` set (extractCanvasImages v s p))
   \<and> (k < length (videos p) \<and>
        (int (videoWidth (videos p ! k)) = minWidth s \<or> int (videoHeight (videos p ! k)) = minHeight s)
      \<longrightarrow> ''Video Frame '' @ dec (k + 1) \<notin> i_alt ` set (extractCanvasImages v s p))
   \<and> (ft_blob (fileTypes s) \<and> k < length (canvases p) \<and>
        minWidth s < int (c_width (canvases p ! k)) \<and> minHeight s < int (c_height (canvases p ! k)) \<and>
        c_dataUrl (canvases p ! k) \<noteq> None
      \<longrightarrow> ''Canvas Image '' @ dec (k + 1) \<in> i_alt ` set (extractCanvasImages v s p))
   \<and> (passesFileTypeFilter s x \<and> int (width x) = minWidth s \<and> int (height x) = minHeight s \<and>
        v (i_url x) \<and> sc (generateImageKey x) = None
      \<longrightarrow> fst (passesFilters v s x sc))"
proof (intro conjI impI)
  assume "c \<in> set (extractCanvasImages v s p) \<and> (i_type c = ''canvas'' \<or> i_type c = ''video-frame'')"
  then show "minWidth s < int (width c)" "minHeight s < int (height c)"
    using extractCanvasImages_sizes [of c v s p] by blast+
next
  assume "k < length (canvases p) \<and>
        (int (c_width (canvases p ! k)) = minWidth s \<or> int (c_height (canvases p ! k)) = minHeight s)"
  then show "''Canvas Image '' @ dec (k + 1) \<notin> i_alt ` set (extractCanvasImages v s p)"
    using canvas_not_emitted [of k p s v] by blast
next
  assume "k < length (videos p) \<and>
        (int (videoWidth (videos p ! k)) = minWidth s \<or> int (videoHeight (videos p ! k)) = minHeight s)"
  then show "''Video Frame '' @ dec (k + 1) \<notin> i_alt ` set (extractCanvasImages v s p)"
    using video_not_emitted [of k p s v] by blast
next
  assume "ft_blob (fileTypes s) \<and> k < length (canvases p) \<and>
        minWidth s < int (c_width (canvases p ! k)) \<and> minHeight s < int (c_height (canvases p ! k)) \<and>
        c_dataUrl (canvases p ! k) \<noteq> None"
  then show "''Canvas Image '' @ dec (k + 1) \<in> i_alt ` set (extractCanvasImages v s p)"
    using canvas_emitted [of s k p v] by blast
next
  assume "passesFileTypeFilter s x \<and> int (width x) = minWidth s \<and> int (height x) = minHeight s \<and>
        v (i_url x) \<and> sc (generateImageKey x) = None"
  then show "fst (passesFilters v s x sc)" by (simp add: passesFilters_iff)
qed

text \<open>The page with a canvas of exactly the minimum size, a larger one and a video.\<close>

lemma canvas_page_extracted:
  "map (\<lambda>c. (i_alt c, width c, height c, i_type c))
       (extractCanvasImages any_url (min_size 200 200) canvas_page)
     = [(''Canvas Image 2'', 201, 201, ''canvas'')]"
proof -
  have "dec (Suc 0) = ''1''" "dec (Suc (Suc 0)) = ''2''" by code_simp+
  then show ?thesis
    by (simp add: extractCanvasImages_def extractVideoFrames_def canvas_page_def canvasCandidate_def
          videoCandidate_def default_types_def)
qed

lemma canvas_page_facts:
  "length (canvases canvas_page) = 2" "length (videos canvas_page) = 1"
  "c_width (canvases canvas_page ! 0) = 200" "c_width (canvases canvas_page ! 1) = 201"
  "c_height (canvases canvas_page ! 1) = 201"
  "c_dataUrl (canvases canvas_page ! 1) = Some ''data:image/png;base64,BB''"
  "videoWidth (videos canvas_page ! 0) = 200"
  "ft_blob (fileTypes (min_size 200 200))"
  "dec (Suc 0) = ''1''" "dec (Suc (Suc 0)) = ''2''"
  by (simp_all add: canvas_page_def default_types_def) code_simp+

theorem canvas_video_exclusive_boundary_witness:
  "map (\<lambda>c. (i_alt c, width c, height c, i_type c))
       (extractCanvasImages any_url (min_size 200 200) canvas_page)
     = [(''Canvas Image 2'', 201, 201, ''canvas'')]
   \<and> ''Canvas Image 1'' \<notin> i_alt ` set (extractCanvasImages any_url (min_size 200 200) canvas_page)
   \<and> ''Video Frame 1'' \<notin> i_alt ` set (extractCanvasImages any_url (min_size 200 200) canvas_page)
   \<and> ''Canvas Image 2'' \<in> i_alt ` set (extractCanvasImages any_url (min_size 200 200) canvas_page)"
proof -
  have "''Canvas Image 1'' \<notin> i_alt ` set (extractCanvasImages any_url (min_size 200 200) canvas_page)
   \<and> ''Video Frame 1'' \<notin> i_alt ` set (extractCanvasImages any_url (min_size 200 200) canvas_page)"
    using canvas_video_exclusive_boundary [of _ any_url "min_size 200 200" canvas_page 0]
      canvas_page_facts
    by simp
  moreover have "''Canvas Image 2'' \<in> i_alt ` set (extractCanvasImages any_url (min_size 200 200) canvas_page)"
    using canvas_video_exclusive_boundary [of _ any_url "min_size 200 200" canvas_page 1]
      canvas_page_facts
    by simp
  ultimately show ?thesis using canvas_page_extracted by blast
qed

section \<open>Verification: image extractor\<close>

subsection \<open>The chain of proxies (C8)\<close>

lemma tryProxies_all_fail:
  "\<forall>p \<in> set ps. isl (proxyAttempt b config u p) \<Longrightarrow>
     tryProxies b config u ps lastError =
       RemoteFallback u u (if ps = [] then lastError else Some (projl (proxyAttempt b config u (last ps))))"
proof (induction ps arbitrary: lastError)
  case Nil
  then show ?case by simp
next
  case (Cons p ps)
  then obtain message where m: "proxyAttempt b config u p = Inl message"
    by (cases "proxyAttempt b config u p") auto
  with Cons show ?case by (cases ps) auto
qed

lemma tryProxies_first_success:
  "\<forall>q \<in> set xs. isl (proxyAttempt b config u q) \<Longrightarrow>
     proxyAttempt b config u p = Inr (proxiedUrl, body) \<Longrightarrow>
     tryProxies b config u (xs @ p # ys) lastError = RemoteProxy u proxiedUrl body (createObjectURL b body)"
proof (induction xs arbitrary: lastError)
  case Nil
  then show ?case by simp
next
  case (Cons x xs)
  then obtain message where m: "proxyAttempt b config u x = Inl message"
    by (cases "proxyAttempt b config u x") auto
  with Cons show ?case by simp
qed

lemma tryProxies_fallback_url:
  "tryProxies b config u ps lastError = RemoteFallback u' d message \<Longrightarrow> u' = u \<and> d = u"
  by (induction ps arbitrary: lastError) (auto split: sum.splits prod.splits)

lemma proxyAttempt_url:
  "proxyAttempt b config u p = Inr (proxiedUrl, body) \<Longrightarrow>
     \<exists>encoded. encodeURIComponent b u = Inr encoded \<and> proxiedUrl = p @ encoded \<and>
        fetchBlob b proxiedUrl (timeout config) = Inr body"
  by (auto simp: proxyAttempt_def split: sum.splits)

text \<open>
  Claim C8 as stated fails where the configuration turns the proxies off. The direct
  fetch is refused and the second configured proxy would deliver the image, but with
  \<open>useCorsProxy\<close> false no proxy is tried and the fallback descriptor is returned.
\<close>

theorem proxies_skipped_when_disabled:
  "fetchBlob example_browser ''https://h/a.jpg'' (timeout without_proxy) = Inl ''Failed to fetch''
   \<and> proxyAttempt example_browser without_proxy ''https://h/a.jpg'' (corsProxyUrls newExtractor ! 1)
       = Inr (''https://cors-anywhere.herokuapp.com/https%3A%2F%2Fh%2Fa.jpg'', example_blob)
   \<and> fst (handleRemoteUrl example_browser without_proxy newExtractor ''https://h/a.jpg'')
       = RemoteFallback ''https://h/a.jpg'' ''https://h/a.jpg'' (Some ''Failed to fetch'')"
  by (simp add: handleRemoteUrl_def proxyAttempt_def fetchBlob_def fetchWithTimeout_def
        example_browser_def without_proxy_def newExtractor_def Let_def)

text \<open>
  Claim C8, amended. \<^verbatim>\<open>handleRemoteUrl\<close> fetches the URL directly first and returns
  the direct descriptor when that succeeds. When it fails, for whatever reason, and
  \<open>useCorsProxy\<close> is set, the proxies are tried in list order: the result is that of
  the first proxy whose attempt succeeds, all before it having failed, fetched from
  the proxy prefix followed by the encoded URL. When every proxy fails, or
  \<open>useCorsProxy\<close> is not set, the function returns the fallback descriptor. A fallback
  descriptor always carries the original URL as its download URL; a failed direct
  fetch is counted once.
\<close>

theorem remote_url_chain:
  "(fetchBlob b u (timeout config) = Inr body \<longrightarrow>
      fst (handleRemoteUrl b config ex u) = RemoteDirect u body (createObjectURL b body))
   \<and> (fetchBlob b u (timeout config) = Inl message \<and> useCorsProxy config \<and>
        corsProxyUrls ex = xs @ p # ys \<and> (\<forall>q \<in> set xs. isl (proxyAttempt b config u q)) \<and>
        proxyAttempt b config u p = Inr (proxiedUrl, body) \<longrightarrow>
      fst (handleRemoteUrl b config ex u) = RemoteProxy u proxiedUrl body (createObjectURL b body) \<and>
      (\<exists>encoded. encodeURIComponent b u = Inr encoded \<and> proxiedUrl = p @ encoded))
   \<and> (fetchBlob b u (timeout config) = Inl message \<and> useCorsProxy config \<and>
        (\<forall>q \<in> set (corsProxyUrls ex). isl (proxyAttempt b config u q)) \<longrightarrow>
      (\<exists>e. fst (handleRemoteUrl b config ex u) = RemoteFallback u u (Some e)))
   \<and> (fetchBlob b u (timeout config) = Inl message \<and> \<not> useCorsProxy config \<longrightarrow>
      fst (handleRemoteUrl b config ex u) = RemoteFallback u u (Some message))
   \<and> (fst (handleRemoteUrl b config ex u) = RemoteFallback u' d e \<longrightarrow> u' = u \<and> d = u)
   \<and> (fetchBlob b u (timeout config) = Inl message \<longrightarrow>
      corsBlocked (snd (handleRemoteUrl b config ex u)) = corsBlocked ex + 1)"
proof (intro conjI impI)
  assume "fetchBlob b u (timeout config) = Inr body"
  then show "fst (handleRemoteUrl b config ex u) = RemoteDirect u body (createObjectURL b body)"
    by (simp add: handleRemoteUrl_def)
next
  assume h: "fetchBlob b u (timeout config) = Inl message \<and> useCorsProxy config \<and>
        corsProxyUrls ex = xs @ p # ys \<and> (\<forall>q \<in> set xs. isl (proxyAttempt b config u q)) \<and>
        proxyAttempt b config u p = Inr (proxiedUrl, body)"
  then have "tryProxies b config u (xs @ p # ys) (Some message)
      = RemoteProxy u proxiedUrl body (createObjectURL b body)"
    by (intro tryProxies_first_success) auto
  with h show "fst (handleRemoteUrl b config ex u) = RemoteProxy u proxiedUrl body (createObjectURL b body)"
    by (simp add: handleRemoteUrl_def Let_def)
  from h show "\<exists>encoded. encodeURIComponent b u = Inr encoded \<and> proxiedUrl = p @ encoded"
    using proxyAttempt_url [of b config u p proxiedUrl body] by blast
next
  assume h: "fetchBlob b u (timeout config) = Inl message \<and> useCorsProxy config \<and>
        (\<forall>q \<in> set (corsProxyUrls ex). isl (proxyAttempt b config u q))"
  then have "tryProxies b config u (corsProxyUrls ex) (Some message) =
       RemoteFallback u u (if corsProxyUrls ex = [] then Some message
          else Some (projl (proxyAttempt b config u (last (corsProxyUrls ex)))))"
    by (intro tryProxies_all_fail) auto
  with h show "\<exists>e. fst (handleRemoteUrl b config ex u) = RemoteFallback u u (Some e)"
    by (simp add: handleRemoteUrl_def Let_def)
next
  assume "fetchBlob b u (timeout config) = Inl message \<and> \<not> useCorsProxy config"
  then show "fst (handleRemoteUrl b config ex u) = RemoteFallback u u (Some message)"
    by (simp add: handleRemoteUrl_def Let_def)
next
  assume h: "fst (handleRemoteUrl b config ex u) = RemoteFallback u' d e"
  then show "u' = u" "d = u"
    by (auto simp: handleRemoteUrl_def Let_def split: sum.splits if_splits
          dest: tryProxies_fallback_url)
next
  assume "fetchBlob b u (timeout config) = Inl message"
  then show "corsBlocked (snd (handleRemoteUrl b config ex u)) = corsBlocked ex + 1"
    by (simp add: handleRemoteUrl_def Let_def)
qed

text \<open>
  The example network: the second proxy delivers one URL, nothing delivers another,
  and with the proxies off the first URL falls back.
\<close>

lemma example_network:
  "fetchBlob example_browser ''https://h/a.jpg'' (timeout with_proxy) = Inl ''Failed to fetch''"
  "useCorsProxy with_proxy"
  "corsProxyUrls newExtractor = [''https://api.allorigins.win/raw?url=''] @
     ''https://cors-anywhere.herokuapp.com/'' # [''https://proxy.cors.sh/'']"
  "isl (proxyAttempt example_browser with_proxy ''https://h/a.jpg'' ''https://api.allorigins.win/raw?url='')"
  "proxyAttempt example_browser with_proxy ''https://h/a.jpg'' ''https://cors-anywhere.herokuapp.com/''
     = Inr (''https://cors-anywhere.herokuapp.com/https%3A%2F%2Fh%2Fa.jpg'', example_blob)"
  "createObjectURL example_browser example_blob = ''blob:1''"
  "fetchBlob example_browser ''https://h/b.jpg'' (timeout with_proxy) = Inl ''Failed to fetch''"
  "isl (proxyAttempt example_browser with_proxy ''https://h/b.jpg'' ''https://api.allorigins.win/raw?url='')"
  "isl (proxyAttempt example_browser with_proxy ''https://h/b.jpg'' ''https://cors-anywhere.herokuapp.com/'')"
  "isl (proxyAttempt example_browser with_proxy ''https://h/b.jpg'' ''https://proxy.cors.sh/'')"
  "fetchBlob example_browser ''https://h/a.jpg'' (timeout without_proxy) = Inl ''Failed to fetch''"
  "\<not> useCorsProxy without_proxy"
  "corsBlocked newExtractor = 0"
  by (simp_all add: proxyAttempt_def fetchBlob_def fetchWithTimeout_def example_browser_def
        with_proxy_def without_proxy_def newExtractor_def)

theorem remote_url_chain_witness:
  "fst (handleRemoteUrl example_browser with_proxy newExtractor ''https://h/a.jpg'')
     = RemoteProxy ''https://h/a.jpg'' ''https://cors-anywhere.herokuapp.com/https%3A%2F%2Fh%2Fa.jpg''
         example_blob ''blob:1''
   \<and> (\<exists>e. fst (handleRemoteUrl example_browser with_proxy newExtractor ''https://h/b.jpg'')
           = RemoteFallback ''https://h/b.jpg'' ''https://h/b.jpg'' (Some e))
   \<and> fst (handleRemoteUrl example_browser without_proxy newExtractor ''https://h/a.jpg'')
       = RemoteFallback ''https://h/a.jpg'' ''https://h/a.jpg'' (Some ''Failed to fetch'')
   \<and> corsBlocked (snd (handleRemoteUrl example_browser with_proxy newExtractor ''https://h/a.jpg'')) = 1"
proof -
  have a: "fst (handleRemoteUrl example_browser with_proxy newExtractor ''https://h/a.jpg'')
     = RemoteProxy ''https://h/a.jpg'' ''https://cors-anywhere.herokuapp.com/https%3A%2F%2Fh%2Fa.jpg''
         example_blob ''blob:1''
     \<and> corsBlocked (snd (handleRemoteUrl example_browser with_proxy newExtractor ''https://h/a.jpg'')) = 1"
    using remote_url_chain [of example_browser "''https://h/a.jpg''" with_proxy example_blob newExtractor
        "''Failed to fetch''" "[''https://api.allorigins.win/raw?url='']"
        "''https://cors-anywhere.herokuapp.com/''" "[''https://proxy.cors.sh/'']"
        "''https://cors-anywhere.herokuapp.com/https%3A%2F%2Fh%2Fa.jpg''" "''x''" "''y''" None]
      example_network
    by simp
  have b: "\<exists>e. fst (handleRemoteUrl example_browser with_proxy newExtractor ''https://h/b.jpg'')
           = RemoteFallback ''https://h/b.jpg'' ''https://h/b.jpg'' (Some e)"
    using remote_url_chain [of example_browser "''https://h/b.jpg''" with_proxy example_blob newExtractor
        "''Failed to fetch''" "[''https://api.allorigins.win/raw?url='']"
        "''https://cors-anywhere.herokuapp.com/''" "[''https://proxy.cors.sh/'']"
        "''z''" "''x''" "''y''" None]
      example_network
    by simp
  have c: "fst (handleRemoteUrl example_browser without_proxy newExtractor ''https://h/a.jpg'')
       = RemoteFallback ''https://h/a.jpg'' ''https://h/a.jpg'' (Some ''Failed to fetch'')"
    using remote_url_chain [of example_browser "''https://h/a.jpg''" without_proxy example_blob newExtractor
        "''Failed to fetch''" "[''https://api.allorigins.win/raw?url='']"
        "''https://cors-anywhere.herokuapp.com/''" "[''https://proxy.cors.sh/'']"
        "''z''" "''x''" "''y''" None]
      example_network
    by simp
  from a b c show ?thesis by blast
qed

end
